theory Spec2Isabelle
  imports Main "HOL-Library.Sublist"
begin

section \<open>Characters and the C library helpers used by the calculator\<close>

text \<open>
  The program works on \<open>std::string\<close>, a sequence of bytes, modelled as \<open>string\<close>.
  \<open>tolower\<close>, \<open>isdigit\<close> and \<open>isspace\<close> are the ones of the C locale.
\<close>

definition tolower_c :: "char \<Rightarrow> char" where
  "tolower_c c =
     (case map_of (zip ''ABCDEFGHIJKLMNOPQRSTUVWXYZ'' ''abcdefghijklmnopqrstuvwxyz'') c of
        Some l \<Rightarrow> l
      | None \<Rightarrow> c)"

definition isdigit_c :: "char \<Rightarrow> bool" where
  "isdigit_c c = (c \<in> set ''0123456789'')"

text \<open>Space, \<open>\t\<close>, \<open>\n\<close>, \<open>\v\<close>, \<open>\f\<close> and \<open>\r\<close>.\<close>

definition isspace_c :: "char \<Rightarrow> bool" where
  "isspace_c c =
     (c \<in> set [CHR '' '', CHR 0x09, CHR 0x0A, CHR 0x0B, CHR 0x0C, CHR 0x0D])"

definition isalpha_c :: "char \<Rightarrow> bool" where
  "isalpha_c c = (c \<in> set ''ABCDEFGHIJKLMNOPQRSTUVWXYZabcdefghijklmnopqrstuvwxyz'')"

definition lower :: "string \<Rightarrow> string" where
  "lower s = map tolower_c s"

text \<open>
  \<open>_strcmpi(a, b) == 0\<close>: both arguments are C strings, read up to the first NUL byte,
  and compared after lowering every character.
\<close>

definition c_str :: "string \<Rightarrow> string" where
  "c_str s = takeWhile (\<lambda>c. c \<noteq> CHR 0x00) s"

definition strcmpi_eq :: "string \<Rightarrow> string \<Rightarrow> bool" where
  "strcmpi_eq a b = (lower (c_str a) = lower (c_str b))"

subsection \<open>The type \<open>ll\<close> and \<open>stoll\<close>\<close>

text \<open>
  \<open>typedef long long ll\<close>: a 64-bit signed integer. A value of the model is an \<open>int\<close>
  between \<open>LLONG_MIN\<close> and \<open>LLONG_MAX\<close>; an operation whose mathematical result leaves
  this range is undefined behaviour in C++ and is an outcome of its own below.
\<close>

definition LLONG_MIN :: int where "LLONG_MIN = - (2 ^ 63)"
definition LLONG_MAX :: int where "LLONG_MAX = 2 ^ 63 - 1"

definition in_ll :: "int \<Rightarrow> bool" where
  "in_ll v = (LLONG_MIN \<le> v \<and> v \<le> LLONG_MAX)"

datatype stoll_error = invalid_argument | out_of_range

definition digit_value :: "char \<Rightarrow> int" where
  "digit_value c =
     (case map_of (zip ''0123456789'' [0, 1, 2, 3, 4, 5, 6, 7, 8, 9]) c of
        Some d \<Rightarrow> d
      | None \<Rightarrow> 0)"

definition digits_value :: "string \<Rightarrow> int" where
  "digits_value ds = foldl (\<lambda>acc c. 10 * acc + digit_value c) 0 ds"

text \<open>
  \<open>std::stoll(str)\<close> with base 10 and no position argument: leading white space is
  skipped, one sign is accepted, then the longest run of digits is converted and whatever
  follows is ignored. No digit: \<open>std::invalid_argument\<close>. A value outside \<open>long long\<close>:
  \<open>std::out_of_range\<close>.
\<close>

definition stoll :: "string \<Rightarrow> stoll_error + int" where
  "stoll str =
     (let s1 = dropWhile isspace_c str;
          neg = (case s1 of [] \<Rightarrow> False | c # _ \<Rightarrow> c = CHR ''-'');
          s2 = (case s1 of [] \<Rightarrow> []
                | c # cs \<Rightarrow> if c = CHR ''-'' \<or> c = CHR ''+'' then cs else s1);
          ds = takeWhile isdigit_c s2;
          v = (if neg then - digits_value ds else digits_value ds)
      in if ds = [] then Inl invalid_argument
         else if in_ll v then Inr v
         else Inl out_of_range)"

text \<open>
  An integer literal, as the claims use the word: a token of the digit alternative of the
  pattern whose value fits \<open>long long\<close>, so that \<open>stoll\<close> converts it.
\<close>

definition integer_literal :: "string \<Rightarrow> bool" where
  "integer_literal a = (a \<noteq> [] \<and> list_all isdigit_c a \<and> in_ll (digits_value a))"

section \<open>Outcomes\<close>

text \<open>
  Every failure of the program is \<open>throw exception("...")\<close> with a message, except the
  \<open>std::out_of_range\<close> that \<open>stoll\<close> throws through \<open>parsePrimary\<close>. The places where the
  source has undefined behaviour (no exception is thrown there, so the driver's
  \<open>catch\<close> cannot report them) are outcomes of their own.
\<close>

datatype undefined_behaviour =
    dereference_end    \<comment> \<open>\<open>*token\<close> with \<open>token == tokens.end()\<close>\<close>
  | increment_end      \<comment> \<open>\<open>token++\<close> with \<open>token == tokens.end()\<close>\<close>
  | division_by_zero   \<comment> \<open>\<open>r1 / r2\<close> with \<open>r2 == 0\<close>\<close>
  | signed_overflow    \<comment> \<open>a \<open>long long\<close> result that is not representable\<close>

datatype error =
    Thrown string
  | Thrown_out_of_range
  | Undefined undefined_behaviour

section \<open>The expression tree\<close>

text \<open>
  One constructor per class with a \<open>calculate\<close>. \<open>Parentesized\<close> holds an
  \<open>Expression\<close> object by value, so its \<open>calculate\<close> is the one of the base class;
  the parser never builds it.
\<close>

datatype Expression =
    Logical string Expression Expression
  | Relation string Expression Expression
  | Factor string Expression Expression
  | Term string Expression Expression
  | Integer int
  | Parentesized

definition Logical_check :: "string \<Rightarrow> bool" where
  "Logical_check op = (lower op \<in> {''and'', ''or'', ''xor''})"

definition Relation_check :: "string \<Rightarrow> bool" where
  "Relation_check op = (lower op \<in> {''<='', ''>='', ''/='', ''!='', ''>'', ''<'', ''=''})"

definition Factor_check :: "string \<Rightarrow> bool" where
  "Factor_check op = (op = ''*'' \<or> op = ''/'')"

definition Term_check :: "string \<Rightarrow> bool" where
  "Term_check op = (op = ''+'' \<or> op = ''-'')"

definition bool_ll :: "bool \<Rightarrow> int" where
  "bool_ll b = (if b then 1 else 0)"

definition Logical_calculate :: "string \<Rightarrow> int \<Rightarrow> int \<Rightarrow> error + int" where
  "Logical_calculate op r1 r2 =
     (if strcmpi_eq op ''and'' then Inr (bool_ll (r1 > 0 \<and> r2 > 0))
      else if strcmpi_eq op ''or'' then Inr (bool_ll (r1 > 0 \<or> r2 > 0))
      else if strcmpi_eq op ''xor'' then Inr (bool_ll ((r1 \<noteq> 0) \<noteq> (r2 \<noteq> 0)))
      else Inl (Thrown ''logical NONE''))"

definition Relation_calculate :: "string \<Rightarrow> int \<Rightarrow> int \<Rightarrow> error + int" where
  "Relation_calculate op r1 r2 =
     (if op = ''<'' then Inr (bool_ll (r1 < r2))
      else if op = ''<='' then Inr (bool_ll (r1 \<le> r2))
      else if op = ''>'' then Inr (bool_ll (r1 > r2))
      else if op = ''>='' then Inr (bool_ll (r1 \<ge> r2))
      else if op = ''=='' then Inr (bool_ll (r1 = r2))
      else if op = ''!='' \<or> op = ''/='' then Inr (bool_ll (r1 \<noteq> r2))
      else Inl (Thrown ''relation NONE''))"

definition ll_result :: "int \<Rightarrow> error + int" where
  "ll_result v = (if in_ll v then Inr v else Inl (Undefined signed_overflow))"

text \<open>C++ division truncates towards zero; \<open>div\<close> on \<open>int\<close> rounds down.\<close>

definition truncating_div :: "int \<Rightarrow> int \<Rightarrow> int" where
  "truncating_div a b = sgn a * sgn b * (\<bar>a\<bar> div \<bar>b\<bar>)"

definition Factor_calculate :: "string \<Rightarrow> int \<Rightarrow> int \<Rightarrow> error + int" where
  "Factor_calculate op r1 r2 =
     (if op = ''*'' then ll_result (r1 * r2)
      else if op = ''/'' then
        (if r2 = 0 then Inl (Undefined division_by_zero)
         else ll_result (truncating_div r1 r2))
      else Inl (Thrown ''factor NONE''))"

definition Term_calculate :: "string \<Rightarrow> int \<Rightarrow> int \<Rightarrow> error + int" where
  "Term_calculate op r1 r2 =
     (if op = ''+'' then ll_result (r1 + r2)
      else if op = ''-'' then ll_result (r1 - r2)
      else Inl (Thrown ''term NONE''))"

text \<open>Both operands are evaluated, the left one first, before the operator is looked at.\<close>

definition operands :: "error + int \<Rightarrow> error + int \<Rightarrow> (int \<Rightarrow> int \<Rightarrow> error + int) \<Rightarrow> error + int" where
  "operands a b f =
     (case a of Inl e \<Rightarrow> Inl e
      | Inr r1 \<Rightarrow> (case b of Inl e \<Rightarrow> Inl e | Inr r2 \<Rightarrow> f r1 r2))"

fun calculate :: "Expression \<Rightarrow> error + int" where
  "calculate (Logical op left right) =
     operands (calculate left) (calculate right) (Logical_calculate op)"
| "calculate (Relation op left right) =
     operands (calculate left) (calculate right) (Relation_calculate op)"
| "calculate (Factor op left right) =
     operands (calculate left) (calculate right) (Factor_calculate op)"
| "calculate (Term op left right) =
     operands (calculate left) (calculate right) (Term_calculate op)"
| "calculate (Integer v) = Inr v"
| "calculate Parentesized = Inl (Thrown ''calculate not implemented'')"

section \<open>The tokenizer\<close>

text \<open>
  The pattern of \<open>Parser::tokenize\<close>, with \<open>regex_constants::icase\<close>:
  \<^verbatim>\<open>(and|or|xor)|(<=|>=|\/=|!=)|([><=])|([\+\-\*\/])|([0-9]+)|([()])\<close>
  An ECMAScript alternation takes the first alternative that matches at the position;
  under \<open>icase\<close> a character is compared after \<open>tolower\<close>.
\<close>

definition literal_at :: "string \<Rightarrow> string \<Rightarrow> string option" where
  "literal_at p s =
     (if length p \<le> length s \<and> lower (take (length p) s) = lower p
      then Some (take (length p) s) else None)"

definition class_at :: "string \<Rightarrow> string \<Rightarrow> string option" where
  "class_at cls s =
     (case s of [] \<Rightarrow> None
      | c # _ \<Rightarrow> if tolower_c c \<in> set cls then Some [c] else None)"

definition digits_at :: "string \<Rightarrow> string option" where
  "digits_at s =
     (let m = takeWhile (\<lambda>c. isdigit_c (tolower_c c)) s in if m = [] then None else Some m)"

fun first_match :: "(string \<Rightarrow> string option) list \<Rightarrow> string \<Rightarrow> string option" where
  "first_match [] s = None"
| "first_match (alt # alts) s =
     (case alt s of Some m \<Rightarrow> Some m | None \<Rightarrow> first_match alts s)"

definition token_at :: "string \<Rightarrow> string option" where
  "token_at s =
     first_match
       [literal_at ''and'', literal_at ''or'', literal_at ''xor'',
        literal_at ''<='', literal_at ''>='', literal_at ''/='', literal_at ''!='',
        class_at ''><='',
        class_at ''+-*/'',
        digits_at,
        class_at ''()''] s"

text \<open>
  \<open>regex_search(s, m, token)\<close>: the match at the leftmost position that has one,
  returned with \<open>m.suffix()\<close>.
\<close>

fun regex_search :: "string \<Rightarrow> (string \<times> string) option" where
  "regex_search [] = None"
| "regex_search (c # cs) =
     (case token_at (c # cs) of
        Some m \<Rightarrow> Some (m, drop (length m) (c # cs))
      | None \<Rightarrow> regex_search cs)"

text \<open>
  The loop of \<open>Parser::tokenize\<close>: while the pattern is found, the match is appended to
  \<open>tokens\<close> and the search goes on in the suffix.
\<close>

function tokenize_loop :: "string \<Rightarrow> string list \<Rightarrow> string list" where
  "tokenize_loop s tokens =
     (case regex_search s of
        Some (m, rest) \<Rightarrow> tokenize_loop rest (tokens @ [m])
      | None \<Rightarrow> tokens)"
  by pat_completeness auto
termination
proof (relation "measure (\<lambda>(s, tokens). length s)")
  show "wf (measure (\<lambda>(s, tokens :: string list). length s))"
    by simp
next
  fix s :: string and tokens :: "string list" and x2 :: "string \<times> string" and m rest
  assume found: "regex_search s = Some x2" and x2: "(m, rest) = x2"
  have nonempty: "m \<noteq> []" if "token_at t = Some m" for t m
    using that
    by (auto simp: token_at_def literal_at_def class_at_def digits_at_def Let_def
        split: if_splits list.splits)
  have "regex_search t = Some (m, rest) \<Longrightarrow> length rest < length t" for t
  proof (induction t)
    case Nil
    then show ?case by simp
  next
    case (Cons c cs)
    show ?case
    proof (cases "token_at (c # cs)")
      case None
      with Cons show ?thesis by simp
    next
      case (Some m')
      with Cons.prems have "m' = m" and "rest = drop (length m) (c # cs)"
        by auto
      moreover from Some have "m' \<noteq> []" by (rule nonempty)
      ultimately show ?thesis by (cases m) simp_all
    qed
  qed
  with found x2 have "length rest < length s" by simp
  then show "((rest, tokens @ [m]), s, tokens) \<in> measure (\<lambda>(s, tokens). length s)"
    by simp
qed

declare tokenize_loop.simps [simp del]

definition tokenize :: "string \<Rightarrow> error + string list" where
  "tokenize s =
     (let tokens = tokenize_loop s []
      in if length tokens = 0 then Inl (Thrown ''wrong syntax'') else Inr tokens)"

section \<open>The parser\<close>

text \<open>
  \<open>tokens\<close> is fixed once the constructor has run; the iterator \<open>token\<close> is the
  number of tokens before it, so \<open>tokens.end()\<close> is \<open>length tokens\<close>. Each function
  takes the cursor and returns the tree with the new cursor.

  \<open>parsePrimary\<close> calls \<open>parse()\<close>, which calls \<open>parseLogical\<close> again: in the model
  every function takes that inner \<open>parse\<close> as its first argument, and \<open>parse_fuel\<close>
  closes the recursion. Fuel bounds it: one unit for each turn of a loop and for each
  opened parenthesis. \<open>None\<close> means that the fuel ran out.
\<close>

type_synonym parsed = "(error + Expression \<times> nat) option"

text \<open>\<open>string op; if (token != tokens.end()) op = *token;\<close>\<close>

definition current_op :: "string list \<Rightarrow> nat \<Rightarrow> string" where
  "current_op tokens token = (if token \<noteq> length tokens then tokens ! token else [])"

definition parsePrimary :: "(nat \<Rightarrow> parsed) \<Rightarrow> string list \<Rightarrow> nat \<Rightarrow> parsed" where
  "parsePrimary parse tokens token =
     (if token \<ge> length tokens then Some (Inl (Undefined dereference_end))
      else
        (case stoll (tokens ! token) of
           Inr v \<Rightarrow> Some (Inr (Integer v, token + 1))
         | Inl out_of_range \<Rightarrow> Some (Inl Thrown_out_of_range)
         | Inl invalid_argument \<Rightarrow>
             if tokens ! token = ''('' then
               (case parse (token + 1) of
                  None \<Rightarrow> None
                | Some (Inl e) \<Rightarrow> Some (Inl e)
                | Some (Inr (result, token')) \<Rightarrow>
                    if token' \<ge> length tokens then Some (Inl (Undefined increment_end))
                    else Some (Inr (result, token' + 1)))
             else Some (Inl (Thrown ''syntax error (primary)''))))"

fun parseFactor_loop ::
  "(nat \<Rightarrow> parsed) \<Rightarrow> nat \<Rightarrow> string list \<Rightarrow> Expression \<Rightarrow> nat \<Rightarrow> parsed" where
  "parseFactor_loop parse 0 tokens left token =
     (if Factor_check (current_op tokens token) then None else Some (Inr (left, token)))"
| "parseFactor_loop parse (Suc fuel) tokens left token =
     (let op = current_op tokens token in
      if Factor_check op then
        (case parsePrimary parse tokens (token + 1) of
           None \<Rightarrow> None
         | Some (Inl e) \<Rightarrow> Some (Inl e)
         | Some (Inr (right, token')) \<Rightarrow>
             parseFactor_loop parse fuel tokens (Factor op left right) token')
      else Some (Inr (left, token)))"

definition parseFactor :: "(nat \<Rightarrow> parsed) \<Rightarrow> nat \<Rightarrow> string list \<Rightarrow> nat \<Rightarrow> parsed" where
  "parseFactor parse fuel tokens token =
     (case parsePrimary parse tokens token of
        None \<Rightarrow> None
      | Some (Inl e) \<Rightarrow> Some (Inl e)
      | Some (Inr (left, token')) \<Rightarrow> parseFactor_loop parse fuel tokens left token')"

fun parseTerm_loop ::
  "(nat \<Rightarrow> parsed) \<Rightarrow> nat \<Rightarrow> string list \<Rightarrow> Expression \<Rightarrow> nat \<Rightarrow> parsed" where
  "parseTerm_loop parse 0 tokens left token =
     (if Term_check (current_op tokens token) then None else Some (Inr (left, token)))"
| "parseTerm_loop parse (Suc fuel) tokens left token =
     (let op = current_op tokens token in
      if Term_check op then
        (case parseFactor parse (Suc fuel) tokens (token + 1) of
           None \<Rightarrow> None
         | Some (Inl e) \<Rightarrow> Some (Inl e)
         | Some (Inr (right, token')) \<Rightarrow>
             parseTerm_loop parse fuel tokens (Term op left right) token')
      else Some (Inr (left, token)))"

definition parseTerm :: "(nat \<Rightarrow> parsed) \<Rightarrow> nat \<Rightarrow> string list \<Rightarrow> nat \<Rightarrow> parsed" where
  "parseTerm parse fuel tokens token =
     (case parseFactor parse fuel tokens token of
        None \<Rightarrow> None
      | Some (Inl e) \<Rightarrow> Some (Inl e)
      | Some (Inr (left, token')) \<Rightarrow> parseTerm_loop parse fuel tokens left token')"

fun parseRelation_loop ::
  "(nat \<Rightarrow> parsed) \<Rightarrow> nat \<Rightarrow> string list \<Rightarrow> Expression \<Rightarrow> nat \<Rightarrow> parsed" where
  "parseRelation_loop parse 0 tokens left token =
     (if Relation_check (current_op tokens token) then None else Some (Inr (left, token)))"
| "parseRelation_loop parse (Suc fuel) tokens left token =
     (let op = current_op tokens token in
      if Relation_check op then
        (case parseTerm parse (Suc fuel) tokens (token + 1) of
           None \<Rightarrow> None
         | Some (Inl e) \<Rightarrow> Some (Inl e)
         | Some (Inr (right, token')) \<Rightarrow>
             parseRelation_loop parse fuel tokens (Relation op left right) token')
      else Some (Inr (left, token)))"

definition parseRelation :: "(nat \<Rightarrow> parsed) \<Rightarrow> nat \<Rightarrow> string list \<Rightarrow> nat \<Rightarrow> parsed" where
  "parseRelation parse fuel tokens token =
     (case parseTerm parse fuel tokens token of
        None \<Rightarrow> None
      | Some (Inl e) \<Rightarrow> Some (Inl e)
      | Some (Inr (left, token')) \<Rightarrow> parseRelation_loop parse fuel tokens left token')"

fun parseLogical_loop ::
  "(nat \<Rightarrow> parsed) \<Rightarrow> nat \<Rightarrow> string list \<Rightarrow> Expression \<Rightarrow> nat \<Rightarrow> parsed" where
  "parseLogical_loop parse 0 tokens left token =
     (if Logical_check (current_op tokens token) then None else Some (Inr (left, token)))"
| "parseLogical_loop parse (Suc fuel) tokens left token =
     (let op = current_op tokens token in
      if Logical_check op then
        (case parseRelation parse (Suc fuel) tokens (token + 1) of
           None \<Rightarrow> None
         | Some (Inl e) \<Rightarrow> Some (Inl e)
         | Some (Inr (right, token')) \<Rightarrow>
             parseLogical_loop parse fuel tokens (Logical op left right) token')
      else Some (Inr (left, token)))"

definition parseLogical :: "(nat \<Rightarrow> parsed) \<Rightarrow> nat \<Rightarrow> string list \<Rightarrow> nat \<Rightarrow> parsed" where
  "parseLogical parse fuel tokens token =
     (case parseRelation parse fuel tokens token of
        None \<Rightarrow> None
      | Some (Inl e) \<Rightarrow> Some (Inl e)
      | Some (Inr (left, token')) \<Rightarrow> parseLogical_loop parse fuel tokens left token')"

text \<open>\<open>Expression* parse() { return parseLogical(); }\<close> with the fuel that is left.\<close>

primrec parse_fuel :: "nat \<Rightarrow> string list \<Rightarrow> nat \<Rightarrow> parsed" where
  "parse_fuel 0 = (\<lambda>tokens token. None)"
| "parse_fuel (Suc fuel) =
     (\<lambda>tokens token. parseLogical (parse_fuel fuel tokens) (Suc fuel) tokens token)"

text \<open>
  \<open>Parser(s)\<close> followed by \<open>parse()\<close>: the cursor starts at \<open>tokens.begin()\<close>. Every loop
  turn and every opened parenthesis consumes a token, so one unit of fuel per token and
  one more are enough: \<open>parse\<close> always returns (lemma \<open>parse_returns\<close>).
\<close>

definition parse :: "string list \<Rightarrow> parsed" where
  "parse tokens = parse_fuel (Suc (length tokens)) tokens 0"

text \<open>
  The \<open>try\<close> block of \<open>main\<close>, for any input string in place of the embedded one:
  tokenize, parse, calculate.
\<close>

definition run :: "string \<Rightarrow> (error + int) option" where
  "run input =
     (case tokenize input of
        Inl e \<Rightarrow> Some (Inl e)
      | Inr tokens \<Rightarrow>
          (case parse tokens of
             None \<Rightarrow> None
           | Some (Inl e) \<Rightarrow> Some (Inl e)
           | Some (Inr (tree, token)) \<Rightarrow> Some (calculate tree)))"

section \<open>A predicate for the proofs about a trailing operator\<close>

text \<open>
  \<open>extends tokens op taken p p'\<close> relates a parsing function \<open>p\<close> over \<open>tokens\<close> to the same
  function \<open>p'\<close> over \<open>tokens @ [op]\<close>: where \<open>p\<close> stops before the end, \<open>p'\<close> returns the same;
  where \<open>p\<close> stops at the end, \<open>p'\<close> returns the same unless the operator is taken by one of
  its loops, and then it asks for an operand at the end; where \<open>p\<close> increments the cursor
  at the end, \<open>p'\<close> asks for an operand at the end.
\<close>

abbreviation at_end :: parsed where
  "at_end \<equiv> Some (Inl (Undefined dereference_end))"

definition extends ::
  "string list \<Rightarrow> string \<Rightarrow> bool \<Rightarrow> (nat \<Rightarrow> parsed) \<Rightarrow> (nat \<Rightarrow> parsed) \<Rightarrow> bool" where
  "extends tokens op taken p p' =
     (\<forall>t. t \<le> length tokens \<longrightarrow>
        (p t = Some (Inl (Undefined increment_end)) \<longrightarrow> p' t = at_end)
        \<and> (\<forall>e j. p t = Some (Inr (e, j)) \<longrightarrow>
              t < j \<and> j \<le> length tokens
              \<and> (j < length tokens \<longrightarrow> p' t = Some (Inr (e, j)))
              \<and> (j = length tokens \<longrightarrow>
                    p' t = (if taken then at_end else Some (Inr (e, j))))))"

text \<open>
  \<open>returns tokens p t\<close>: the parsing function \<open>p\<close>, started at \<open>t\<close>, does not run out of fuel,
  and a tree it returns comes with a cursor that has moved and is within the tokens.
\<close>

definition returns :: "string list \<Rightarrow> (nat \<Rightarrow> parsed) \<Rightarrow> nat \<Rightarrow> bool" where
  "returns tokens p t =
     ((\<exists>r. p t = Some r)
      \<and> (\<forall>e j. p t = Some (Inr (e, j)) \<longrightarrow> t < j \<and> j \<le> length tokens))"

text \<open>
  For the comparison of two inputs that differ in the case of letters only: \<open>lower_ops\<close>
  lowers every operator of a tree, \<open>lower_parsed\<close> does so in a result of the parser, and
  \<open>lowered tokens p p'\<close> says that \<open>p'\<close>, over the lowered tokens, returns the lowered result
  of \<open>p\<close>.
\<close>

fun lower_ops :: "Expression \<Rightarrow> Expression" where
  "lower_ops (Logical op left right) = Logical (lower op) (lower_ops left) (lower_ops right)"
| "lower_ops (Relation op left right) = Relation (lower op) (lower_ops left) (lower_ops right)"
| "lower_ops (Factor op left right) = Factor (lower op) (lower_ops left) (lower_ops right)"
| "lower_ops (Term op left right) = Term (lower op) (lower_ops left) (lower_ops right)"
| "lower_ops (Integer v) = Integer v"
| "lower_ops Parentesized = Parentesized"

definition lower_parsed :: "parsed \<Rightarrow> parsed" where
  "lower_parsed r =
     (case r of
        None \<Rightarrow> None
      | Some (Inl e) \<Rightarrow> Some (Inl e)
      | Some (Inr (tree, token)) \<Rightarrow> Some (Inr (lower_ops tree, token)))"

definition lowered :: "string list \<Rightarrow> (nat \<Rightarrow> parsed) \<Rightarrow> (nat \<Rightarrow> parsed) \<Rightarrow> bool" where
  "lowered tokens p p' =
     (\<forall>t. t \<le> length tokens \<longrightarrow>
        p' t = lower_parsed (p t)
        \<and> (\<forall>e j. p t = Some (Inr (e, j)) \<longrightarrow> j \<le> length tokens))"

section \<open>Facts about the characters and the tokenizer\<close>

lemma tolower_c_cases:
  "tolower_c c = c \<or> (isalpha_c c \<and> isalpha_c (tolower_c c) \<and> tolower_c c \<noteq> c)"
  unfolding tolower_c_def isalpha_c_def by (simp split: if_splits)

lemma tolower_c_idem [simp]: "tolower_c (tolower_c c) = tolower_c c"
  unfolding tolower_c_def by (simp split: if_splits)

lemma tolower_c_eq_iff: "\<not> isalpha_c d \<Longrightarrow> (tolower_c c = d) = (c = d)"
  using tolower_c_cases [of c] tolower_c_cases [of d] by (cases "c = d") auto

lemma tolower_c_letter [simp]: "isalpha_c (tolower_c c) = isalpha_c c"
  unfolding tolower_c_def isalpha_c_def by (simp split: if_splits)

lemma lower_idem [simp]: "lower (lower s) = lower s"
  by (simp add: lower_def)

lemma lower_eq_iff: "list_all (\<lambda>d. \<not> isalpha_c d) p \<Longrightarrow> (lower s = p) = (s = p)"
proof (induction p arbitrary: s)
  case Nil
  then show ?case by (simp add: lower_def)
next
  case (Cons d p)
  then show ?case
    by (cases s) (auto simp: lower_def tolower_c_eq_iff)
qed

lemma isdigit_not_letter: "isdigit_c c \<Longrightarrow> \<not> isalpha_c c"
  unfolding isdigit_c_def isalpha_c_def by auto

lemma isspace_not_letter: "isspace_c c \<Longrightarrow> \<not> isalpha_c c"
  unfolding isspace_c_def isalpha_c_def by auto

lemma isdigit_tolower [simp]: "isdigit_c (tolower_c c) = isdigit_c c"
  using tolower_c_cases [of c] isdigit_not_letter [of c] isdigit_not_letter [of "tolower_c c"]
  by auto

lemma isspace_tolower [simp]: "isspace_c (tolower_c c) = isspace_c c"
  using tolower_c_cases [of c] isspace_not_letter [of c] isspace_not_letter [of "tolower_c c"]
  by auto

lemma literal_at_prefix:
  "literal_at p s = Some m \<Longrightarrow> p \<noteq> [] \<Longrightarrow> m \<noteq> [] \<and> s = m @ drop (length m) s"
  by (auto simp: literal_at_def split: if_splits)

lemma class_at_prefix: "class_at cls s = Some m \<Longrightarrow> m \<noteq> [] \<and> s = m @ drop (length m) s"
  by (auto simp: class_at_def split: if_splits list.splits)

lemma digits_at_prefix:
  assumes "digits_at s = Some m"
  shows "m \<noteq> [] \<and> s = m @ drop (length m) s"
proof -
  let ?w = "takeWhile (\<lambda>c. isdigit_c (tolower_c c)) s"
  from assms have "(if ?w = [] then None else Some ?w) = Some m"
    unfolding digits_at_def Let_def .
  then have m: "?w = m" and "m \<noteq> []"
    by (cases "?w = []"; simp)+
  have "s = ?w @ drop (length ?w) s"
    by (metis takeWhile_dropWhile_id dropWhile_eq_drop)
  then have "s = m @ drop (length m) s"
    unfolding m .
  with \<open>m \<noteq> []\<close> show ?thesis by simp
qed

lemma first_match_Some:
  "first_match alts s = Some m \<Longrightarrow> \<exists>alt \<in> set alts. alt s = Some m"
  by (induction alts) (auto split: option.splits)

lemma token_at_prefix:
  assumes "token_at s = Some m"
  shows "m \<noteq> [] \<and> s = m @ drop (length m) s"
proof -
  from assms first_match_Some obtain alt where
    alt: "alt \<in> set [literal_at ''and'', literal_at ''or'', literal_at ''xor'',
        literal_at ''<='', literal_at ''>='', literal_at ''/='', literal_at ''!='',
        class_at ''><='', class_at ''+-*/'', digits_at, class_at ''()'']"
    and m: "alt s = Some m"
    unfolding token_at_def by blast
  from alt consider p where "alt = literal_at p" "p \<noteq> []"
    | cls where "alt = class_at cls" | "alt = digits_at"
    by auto
  then show ?thesis
  proof cases
    case 1
    with m show ?thesis by (simp add: literal_at_prefix)
  next
    case 2
    with m show ?thesis by (simp add: class_at_prefix)
  next
    case 3
    with m show ?thesis by (simp add: digits_at_prefix)
  qed
qed

lemma regex_search_skip:
  "token_at (c # cs) = None \<Longrightarrow> regex_search (c # cs) = regex_search cs"
  by simp

lemma regex_search_found:
  "regex_search s = Some (m, suf) \<Longrightarrow> m \<noteq> [] \<and> (\<exists>skipped. s = skipped @ m @ suf)"
proof (induction s)
  case Nil
  then show ?case by simp
next
  case (Cons c cs)
  show ?case
  proof (cases "token_at (c # cs)")
    case None
    with Cons.prems have "regex_search cs = Some (m, suf)" by simp
    with Cons.IH obtain skipped where "m \<noteq> []" and "cs = skipped @ m @ suf" by auto
    then have "c # cs = (c # skipped) @ m @ suf" by simp
    with \<open>m \<noteq> []\<close> show ?thesis by blast
  next
    case (Some m')
    with Cons.prems have m: "m' = m" and suf: "suf = drop (length m) (c # cs)"
      by auto
    from Some m token_at_prefix [of "c # cs" m]
    obtain rest where "m \<noteq> []" and "c # cs = m @ rest"
      by blast
    with suf have "c # cs = [] @ m @ suf" by simp
    with \<open>m \<noteq> []\<close> show ?thesis by blast
  qed
qed

lemma regex_search_shorter: "regex_search s = Some (m, suf) \<Longrightarrow> length suf < length s"
  using regex_search_found [of s m suf] by (cases m) auto

lemma tokenize_loop_acc: "tokenize_loop s acc = acc @ tokenize_loop s []"
proof (induction "length s" arbitrary: s acc rule: less_induct)
  case less
  show ?case
  proof (cases "regex_search s")
    case None
    then show ?thesis by (simp add: tokenize_loop.simps [of s])
  next
    case (Some found)
    obtain m suf where found: "found = (m, suf)" by (cases found)
    with Some have shorter: "length suf < length s" by (simp add: regex_search_shorter)
    have "tokenize_loop suf (acc @ [m]) = (acc @ [m]) @ tokenize_loop suf []"
      by (rule less [OF shorter])
    moreover have "tokenize_loop suf ([] @ [m]) = ([] @ [m]) @ tokenize_loop suf []"
      by (rule less [OF shorter])
    ultimately show ?thesis using Some found by (simp add: tokenize_loop.simps [of s])
  qed
qed

lemma tokenize_loop_found:
  "regex_search s = Some (m, suf) \<Longrightarrow> tokenize_loop s acc = acc @ m # tokenize_loop suf []"
  using tokenize_loop_acc [of suf "acc @ [m]"] by (simp add: tokenize_loop.simps [of s])

lemma tokenize_loop_subseq: "subseq (concat (tokenize_loop s [])) s"
proof (induction "length s" arbitrary: s rule: less_induct)
  case less
  show ?case
  proof (cases "regex_search s")
    case None
    then show ?thesis by (simp add: tokenize_loop.simps [of s])
  next
    case (Some found)
    obtain m suf where found: "found = (m, suf)" by (cases found)
    with Some have shorter: "length suf < length s" by (simp add: regex_search_shorter)
    from Some found regex_search_found obtain skipped where s: "s = skipped @ m @ suf"
      by blast
    have "subseq (concat (tokenize_loop suf [])) suf"
      by (rule less [OF shorter])
    then have "subseq (m @ concat (tokenize_loop suf [])) (m @ suf)"
      by (intro list_emb_append_mono) simp_all
    then have "subseq (m @ concat (tokenize_loop suf [])) (skipped @ m @ suf)"
      by (rule subseq_drop_many)
    moreover have "tokenize_loop s [] = m # tokenize_loop suf []"
      using Some found tokenize_loop_found [of s m suf "[]"] by simp
    ultimately show ?thesis using s by simp
  qed
qed

section \<open>Facts about literals and the parser\<close>

lemma isdigit_c_facts:
  assumes "isdigit_c d"
  shows "\<not> isspace_c d \<and> tolower_c d = d \<and> d \<notin> set ''+-*/<>=!()''"
proof -
  have "\<forall>d \<in> set ''0123456789''.
          \<not> isspace_c d \<and> tolower_c d = d \<and> d \<notin> set ''+-*/<>=!()''"
    by (simp add: isspace_c_def tolower_c_def)
  with assms show ?thesis
    unfolding isdigit_c_def by blast
qed

lemma stoll_literal:
  assumes "integer_literal a"
  shows "stoll a = Inr (digits_value a)"
proof -
  from assms obtain d ds where a: "a = d # ds" and d: "isdigit_c d"
    and all: "list_all isdigit_c (d # ds)" and range: "in_ll (digits_value a)"
    unfolding integer_literal_def by (cases a) auto
  from all have tw: "takeWhile isdigit_c ds = ds"
    by (simp add: list_all_iff)
  from isdigit_c_facts [OF d] have "\<not> isspace_c d" "d \<noteq> CHR ''-''" "d \<noteq> CHR ''+''"
    by auto
  with d range show ?thesis
    unfolding stoll_def a by (simp add: Let_def tw)
qed

lemma literal_not_operator:
  assumes "integer_literal a"
  shows "\<not> Factor_check a" "\<not> Term_check a" "\<not> Relation_check a" "\<not> Logical_check a"
    "a \<noteq> ''(''"
proof -
  from assms obtain d ds where a: "a = d # ds" and d: "isdigit_c d"
    unfolding integer_literal_def by (cases a) auto
  from isdigit_c_facts [OF d] have low: "tolower_c d = d" and
    no: "d \<notin> set ''+-*/<>=!()''" by auto
  from d have "\<not> isalpha_c d" by (rule isdigit_not_letter)
  then have no': "d \<notin> set ''aox''" unfolding isalpha_c_def by auto
  from no show "\<not> Factor_check a" "\<not> Term_check a" "a \<noteq> ''(''"
    unfolding a Factor_check_def Term_check_def by auto
  from no low show "\<not> Relation_check a"
    unfolding a Relation_check_def lower_def by auto
  from no' low show "\<not> Logical_check a"
    unfolding a Logical_check_def lower_def by auto
qed

lemma parsePrimary_literal:
  "token < length tokens \<Longrightarrow> integer_literal (tokens ! token) \<Longrightarrow>
   parsePrimary P tokens token = Some (Inr (Integer (digits_value (tokens ! token)), token + 1))"
  by (simp add: parsePrimary_def stoll_literal)

lemma parseFactor_loop_exit:
  "\<not> Factor_check (current_op tokens token) \<Longrightarrow>
   parseFactor_loop P fuel tokens left token = Some (Inr (left, token))"
  by (cases fuel) simp_all

lemma parseTerm_loop_exit:
  "\<not> Term_check (current_op tokens token) \<Longrightarrow>
   parseTerm_loop P fuel tokens left token = Some (Inr (left, token))"
  by (cases fuel) simp_all

lemma parseRelation_loop_exit:
  "\<not> Relation_check (current_op tokens token) \<Longrightarrow>
   parseRelation_loop P fuel tokens left token = Some (Inr (left, token))"
  by (cases fuel) simp_all

lemma parseLogical_loop_exit:
  "\<not> Logical_check (current_op tokens token) \<Longrightarrow>
   parseLogical_loop P fuel tokens left token = Some (Inr (left, token))"
  by (cases fuel) simp_all

lemma no_operator_at_end:
  "\<not> Factor_check []" "\<not> Term_check []" "\<not> Relation_check []" "\<not> Logical_check []"
  by (simp_all add: Factor_check_def Term_check_def Relation_check_def Logical_check_def lower_def)

lemma minus_checks:
  "\<not> Factor_check ''-''" "Term_check ''-''"
  by (simp_all add: Factor_check_def Term_check_def)

lemma parse_unfold:
  "parse tokens = parseLogical (parse_fuel (length tokens) tokens) (Suc (length tokens)) tokens 0"
  unfolding parse_def parse_fuel.simps ..

lemma parseTerm_left_assoc:
  assumes "integer_literal a" "integer_literal b" "integer_literal c"
  shows "parseTerm P (Suc (Suc fuel)) [a, ''-'', b, ''-'', c] 0 =
     Some (Inr (Term ''-'' (Term ''-'' (Integer (digits_value a)) (Integer (digits_value b)))
                  (Integer (digits_value c)), 5))"
  using assms literal_not_operator [OF assms(1)] literal_not_operator [OF assms(2)]
    literal_not_operator [OF assms(3)]
  by (simp add: parseTerm_def parseFactor_def
      parsePrimary_literal parseFactor_loop_exit parseTerm_loop_exit
      current_op_def no_operator_at_end minus_checks Let_def)

lemma parse_left_assoc:
  assumes "integer_literal a" "integer_literal b" "integer_literal c"
  shows "parse [a, ''-'', b, ''-'', c] =
     Some (Inr (Term ''-'' (Term ''-'' (Integer (digits_value a)) (Integer (digits_value b)))
                  (Integer (digits_value c)), 5))"
  unfolding parse_unfold parseLogical_def parseRelation_def
  by (simp add: parseTerm_left_assoc [OF assms] parseRelation_loop_exit
      parseLogical_loop_exit current_op_def no_operator_at_end)

lemma literal_at_first:
  "tolower_c c \<noteq> tolower_c q \<Longrightarrow> literal_at (q # qs) (c # cs) = None"
  by (simp add: literal_at_def lower_def)

lemma lowered_pattern_chars:
  "tolower_c CHR ''a'' = CHR ''a''" "tolower_c CHR ''o'' = CHR ''o''"
  "tolower_c CHR ''x'' = CHR ''x''" "tolower_c CHR ''<'' = CHR ''<''"
  "tolower_c CHR ''>'' = CHR ''>''" "tolower_c CHR ''/'' = CHR ''/''"
  "tolower_c CHR ''!'' = CHR ''!''" "tolower_c CHR ''-'' = CHR ''-''"
  "tolower_c CHR '' '' = CHR '' ''"
  by (simp_all add: tolower_c_def)

lemma token_at_digit:
  assumes "isdigit_c d"
  shows "token_at (d # xs) = Some (d # takeWhile isdigit_c xs)"
proof -
  from isdigit_c_facts [OF assms] have low: "tolower_c d = d"
    and no: "d \<notin> set ''+-*/<>=!()''" by auto
  from assms have "\<not> isalpha_c d" by (rule isdigit_not_letter)
  then have no': "d \<notin> set ''aox''" unfolding isalpha_c_def by auto
  from low no no' have lit: "literal_at ''and'' (d # xs) = None" "literal_at ''or'' (d # xs) = None"
    "literal_at ''xor'' (d # xs) = None" "literal_at ''<='' (d # xs) = None"
    "literal_at ''>='' (d # xs) = None" "literal_at ''/='' (d # xs) = None"
    "literal_at ''!='' (d # xs) = None"
    by (simp_all add: literal_at_first lowered_pattern_chars)
  from low no have cls: "class_at ''><='' (d # xs) = None" "class_at ''+-*/'' (d # xs) = None"
    by (simp_all add: class_at_def)
  from assms have dig: "digits_at (d # xs) = Some (d # takeWhile isdigit_c xs)"
    by (simp add: digits_at_def)
  show ?thesis
    unfolding token_at_def by (simp add: lit cls dig)
qed

lemma token_at_minus: "token_at (CHR ''-'' # xs) = Some ''-''"
  unfolding token_at_def
  by (simp add: literal_at_first lowered_pattern_chars class_at_def)

lemma token_at_space: "token_at (CHR '' '' # xs) = None"
  unfolding token_at_def
  by (simp add: literal_at_first lowered_pattern_chars class_at_def digits_at_def isdigit_c_def)

lemma tokenize_loop_literal:
  assumes "a \<noteq> []" "list_all isdigit_c a" "xs = [] \<or> \<not> isdigit_c (hd xs)"
  shows "tokenize_loop (a @ xs) acc = acc @ a # tokenize_loop xs []"
proof -
  from assms obtain d ds where a: "a = d # ds" and d: "isdigit_c d"
    and ds: "\<forall>x\<in>set ds. isdigit_c x"
    by (cases a) (auto simp: list_all_iff)
  from assms(3) have "takeWhile isdigit_c xs = []"
    by (cases xs) auto
  with ds have "takeWhile isdigit_c (ds @ xs) = ds"
    by (simp add: takeWhile_append)
  with token_at_digit [OF d, of "ds @ xs"] have "token_at (a @ xs) = Some a"
    unfolding a by simp
  then have "regex_search (a @ xs) = Some (a, xs)"
    unfolding a by simp
  then show ?thesis by (rule tokenize_loop_found)
qed

lemma tokenize_loop_minus:
  "tokenize_loop (CHR ''-'' # xs) acc = acc @ ''-'' # tokenize_loop xs []"
  by (rule tokenize_loop_found) (simp add: token_at_minus)

lemma tokenize_loop_space:
  "tokenize_loop (CHR '' '' # xs) acc = tokenize_loop xs acc"
  by (simp add: tokenize_loop.simps [of "CHR '' '' # xs"] tokenize_loop.simps [of xs]
      token_at_space)

lemma tokenize_loop_Nil: "tokenize_loop [] acc = acc"
  by (simp add: tokenize_loop.simps [of "[]"])

lemma not_digit_chars: "\<not> isdigit_c CHR '' ''" "\<not> isdigit_c CHR ''-''"
  by (simp_all add: isdigit_c_def)

lemma tokenize_subtractions:
  assumes "integer_literal a" "integer_literal b" "integer_literal c"
  shows "tokenize (a @ '' - '' @ b @ '' - '' @ c) = Inr [a, ''-'', b, ''-'', c]"
    and "tokenize (a @ ''-'' @ b @ ''-'' @ c) = Inr [a, ''-'', b, ''-'', c]"
proof -
  from assms have ne: "a \<noteq> []" "b \<noteq> []" "c \<noteq> []"
    and dig: "list_all isdigit_c a" "list_all isdigit_c b" "list_all isdigit_c c"
    unfolding integer_literal_def by auto
  have c: "tokenize_loop c [] = [c]"
    using tokenize_loop_literal [OF ne(3) dig(3), of "[]" "[]"]
    by (simp add: tokenize_loop_Nil)
  have "tokenize_loop (a @ CHR '' '' # CHR ''-'' # CHR '' '' # b @ CHR '' '' # CHR ''-'' # CHR '' '' # c) []
        = [a, ''-'', b, ''-'', c]"
    by (simp add: tokenize_loop_literal [OF ne(1) dig(1)] tokenize_loop_literal [OF ne(2) dig(2)]
        tokenize_loop_minus tokenize_loop_space not_digit_chars c)
  then show "tokenize (a @ '' - '' @ b @ '' - '' @ c) = Inr [a, ''-'', b, ''-'', c]"
    by (simp add: tokenize_def)
  have "tokenize_loop (a @ CHR ''-'' # b @ CHR ''-'' # c) [] = [a, ''-'', b, ''-'', c]"
    by (simp add: tokenize_loop_literal [OF ne(1) dig(1)] tokenize_loop_literal [OF ne(2) dig(2)]
        tokenize_loop_minus not_digit_chars c)
  then show "tokenize (a @ ''-'' @ b @ ''-'' @ c) = Inr [a, ''-'', b, ''-'', c]"
    by (simp add: tokenize_def)
qed

lemma digit_value_nonneg: "isdigit_c d \<Longrightarrow> 0 \<le> digit_value d"
proof -
  have "\<forall>d \<in> set ''0123456789''. 0 \<le> digit_value d"
    by (simp add: digit_value_def)
  then show "isdigit_c d \<Longrightarrow> 0 \<le> digit_value d"
    unfolding isdigit_c_def by blast
qed

lemma foldl_digits_nonneg:
  "list_all isdigit_c ds \<Longrightarrow> 0 \<le> acc \<Longrightarrow>
   0 \<le> foldl (\<lambda>acc c. 10 * acc + digit_value c) acc ds"
proof (induction ds arbitrary: acc)
  case Nil
  then show ?case by simp
next
  case (Cons d ds)
  from Cons.prems have "0 \<le> 10 * acc + digit_value d"
    using digit_value_nonneg [of d] by simp
  with Cons show ?case by simp
qed

lemma literal_value_range:
  "integer_literal a \<Longrightarrow> 0 \<le> digits_value a \<and> digits_value a \<le> LLONG_MAX"
  unfolding integer_literal_def digits_value_def in_ll_def
  using foldl_digits_nonneg [of a 0] by simp

lemma calculate_left_assoc:
  assumes "integer_literal a" "integer_literal b" "integer_literal c"
  shows "calculate (Term ''-'' (Term ''-'' (Integer (digits_value a)) (Integer (digits_value b)))
                  (Integer (digits_value c)))
         = ll_result (digits_value a - digits_value b - digits_value c)"
proof -
  from assms(1,2) [THEN literal_value_range]
  have "in_ll (digits_value a - digits_value b)"
    unfolding in_ll_def LLONG_MIN_def LLONG_MAX_def by simp
  then show ?thesis
    by (simp add: operands_def Term_calculate_def ll_result_def)
qed

lemma parsePrimary_end:
  "parsePrimary P tokens (length tokens) = Some (Inl (Undefined dereference_end))"
  by (simp add: parsePrimary_def)

lemma parse_literal_operator:
  assumes lit: "integer_literal a"
    and op: "Logical_check op \<or> Relation_check op \<or> Term_check op \<or> Factor_check op"
  shows "parse [a, op] = Some (Inl (Undefined dereference_end))"
proof -
  let ?D = "Some (Inl (Undefined dereference_end)) :: parsed"
  let ?a = "Some (Inr (Integer (digits_value a), 1)) :: parsed"
  have first: "parsePrimary P [a, op] 0 = ?a" for P
    using parsePrimary_literal [of 0 "[a, op]" P] lit by simp
  have P2: "parsePrimary P [a, op] t = ?D" if "2 \<le> t" for P t
    using that by (simp add: parsePrimary_def)
  have F2: "parseFactor P fuel [a, op] t = ?D" if "2 \<le> t" for P fuel t
    using that by (simp add: parseFactor_def P2)
  have T2: "parseTerm P fuel [a, op] t = ?D" if "2 \<le> t" for P fuel t
    using that by (simp add: parseTerm_def F2)
  have R2: "parseRelation P fuel [a, op] t = ?D" if "2 \<le> t" for P fuel t
    using that by (simp add: parseRelation_def T2)
  have F: "parseFactor P (Suc fuel) [a, op] 0 = (if Factor_check op then ?D else ?a)"
    for P fuel
    by (simp add: parseFactor_def first current_op_def Let_def P2)
  have T: "parseTerm P (Suc fuel) [a, op] 0
      = (if Factor_check op \<or> Term_check op then ?D else ?a)" for P fuel
    by (simp add: parseTerm_def F current_op_def Let_def F2)
  have R: "parseRelation P (Suc fuel) [a, op] 0
      = (if Factor_check op \<or> Term_check op \<or> Relation_check op then ?D else ?a)" for P fuel
    by (simp add: parseRelation_def T current_op_def Let_def T2)
  have L: "parseLogical P (Suc fuel) [a, op] 0
      = (if Factor_check op \<or> Term_check op \<or> Relation_check op \<or> Logical_check op
         then ?D else ?a)" for P fuel
    by (simp add: parseLogical_def R current_op_def Let_def R2)
  from op show ?thesis
    unfolding parse_unfold L by auto
qed

section \<open>Facts about operators of one level, precedence and a trailing operator\<close>

lemma operator_classes_disjoint:
  "Term_check op \<Longrightarrow> \<not> Factor_check op"
  "Relation_check op \<Longrightarrow> \<not> Factor_check op \<and> \<not> Term_check op"
  "Logical_check op \<Longrightarrow> \<not> Factor_check op \<and> \<not> Term_check op \<and> \<not> Relation_check op"
  by (auto simp: Term_check_def Factor_check_def Relation_check_def Logical_check_def
      lower_def tolower_c_def)

lemma parenthesis_checks:
  "\<not> Factor_check '')''" "\<not> Term_check '')''" "\<not> Relation_check '')''"
  "\<not> Logical_check '')''"
  by (simp_all add: Term_check_def Factor_check_def Relation_check_def Logical_check_def
      lower_def tolower_c_def)

lemma stoll_parenthesis: "stoll ''('' = Inl invalid_argument"
  by code_simp

lemma parseFactor_single:
  "token < length tokens \<Longrightarrow> integer_literal (tokens ! token) \<Longrightarrow>
   \<not> Factor_check (current_op tokens (token + 1)) \<Longrightarrow>
   parseFactor P fuel tokens token
     = Some (Inr (Integer (digits_value (tokens ! token)), token + 1))"
  by (simp add: parseFactor_def parsePrimary_literal parseFactor_loop_exit)

lemma parseTerm_single:
  "token < length tokens \<Longrightarrow> integer_literal (tokens ! token) \<Longrightarrow>
   \<not> Factor_check (current_op tokens (token + 1)) \<Longrightarrow>
   \<not> Term_check (current_op tokens (token + 1)) \<Longrightarrow>
   parseTerm P fuel tokens token
     = Some (Inr (Integer (digits_value (tokens ! token)), token + 1))"
  by (simp add: parseTerm_def parseFactor_single parseTerm_loop_exit)

lemma parseRelation_single:
  "token < length tokens \<Longrightarrow> integer_literal (tokens ! token) \<Longrightarrow>
   \<not> Factor_check (current_op tokens (token + 1)) \<Longrightarrow>
   \<not> Term_check (current_op tokens (token + 1)) \<Longrightarrow>
   \<not> Relation_check (current_op tokens (token + 1)) \<Longrightarrow>
   parseRelation P fuel tokens token
     = Some (Inr (Integer (digits_value (tokens ! token)), token + 1))"
  by (simp add: parseRelation_def parseTerm_single parseRelation_loop_exit)

lemma same_level_Factor:
  assumes lits: "integer_literal a" "integer_literal b" "integer_literal c"
    and ops: "Factor_check op1" "Factor_check op2"
  shows "parse [a, op1, b, op2, c] =
     Some (Inr (Factor op2 (Factor op1 (Integer (digits_value a)) (Integer (digits_value b)))
                  (Integer (digits_value c)), 5))"
proof -
  let ?toks = "[a, op1, b, op2, c]"
  have F: "parseFactor P (Suc (Suc fuel)) ?toks 0 =
     Some (Inr (Factor op2 (Factor op1 (Integer (digits_value a)) (Integer (digits_value b)))
                  (Integer (digits_value c)), 5))" for P fuel
    using lits ops
    by (simp add: parseFactor_def parsePrimary_literal parseFactor_loop_exit
        current_op_def no_operator_at_end Let_def)
  show ?thesis
    unfolding parse_unfold parseLogical_def parseRelation_def parseTerm_def
    by (simp add: F parseTerm_loop_exit parseRelation_loop_exit parseLogical_loop_exit
        current_op_def no_operator_at_end)
qed

lemma same_level_Term:
  assumes lits: "integer_literal a" "integer_literal b" "integer_literal c"
    and ops: "Term_check op1" "Term_check op2"
  shows "parse [a, op1, b, op2, c] =
     Some (Inr (Term op2 (Term op1 (Integer (digits_value a)) (Integer (digits_value b)))
                  (Integer (digits_value c)), 5))"
proof -
  let ?toks = "[a, op1, b, op2, c]"
  from ops have no: "\<not> Factor_check op1" "\<not> Factor_check op2"
    by (simp_all add: operator_classes_disjoint)
  have T: "parseTerm P (Suc (Suc fuel)) ?toks 0 =
     Some (Inr (Term op2 (Term op1 (Integer (digits_value a)) (Integer (digits_value b)))
                  (Integer (digits_value c)), 5))" for P fuel
    using lits ops no
    by (simp add: parseTerm_def parseFactor_single parseTerm_loop_exit
        current_op_def no_operator_at_end Let_def)
  show ?thesis
    unfolding parse_unfold parseLogical_def parseRelation_def
    by (simp add: T parseRelation_loop_exit parseLogical_loop_exit
        current_op_def no_operator_at_end)
qed

lemma same_level_Relation:
  assumes lits: "integer_literal a" "integer_literal b" "integer_literal c"
    and ops: "Relation_check op1" "Relation_check op2"
  shows "parse [a, op1, b, op2, c] =
     Some (Inr (Relation op2 (Relation op1 (Integer (digits_value a)) (Integer (digits_value b)))
                  (Integer (digits_value c)), 5))"
proof -
  let ?toks = "[a, op1, b, op2, c]"
  from ops have no: "\<not> Factor_check op1" "\<not> Factor_check op2"
    "\<not> Term_check op1" "\<not> Term_check op2"
    by (simp_all add: operator_classes_disjoint)
  have R: "parseRelation P (Suc (Suc fuel)) ?toks 0 =
     Some (Inr (Relation op2 (Relation op1 (Integer (digits_value a)) (Integer (digits_value b)))
                  (Integer (digits_value c)), 5))" for P fuel
    using lits ops no
    by (simp add: parseRelation_def parseTerm_single parseRelation_loop_exit
        current_op_def no_operator_at_end Let_def)
  show ?thesis
    unfolding parse_unfold parseLogical_def
    by (simp add: R parseLogical_loop_exit current_op_def no_operator_at_end)
qed

lemma same_level_Logical:
  assumes lits: "integer_literal a" "integer_literal b" "integer_literal c"
    and ops: "Logical_check op1" "Logical_check op2"
  shows "parse [a, op1, b, op2, c] =
     Some (Inr (Logical op2 (Logical op1 (Integer (digits_value a)) (Integer (digits_value b)))
                  (Integer (digits_value c)), 5))"
proof -
  let ?toks = "[a, op1, b, op2, c]"
  from ops have no: "\<not> Factor_check op1" "\<not> Factor_check op2"
    "\<not> Term_check op1" "\<not> Term_check op2" "\<not> Relation_check op1" "\<not> Relation_check op2"
    by (simp_all add: operator_classes_disjoint)
  have L: "parseLogical P (Suc (Suc fuel)) ?toks 0 =
     Some (Inr (Logical op2 (Logical op1 (Integer (digits_value a)) (Integer (digits_value b)))
                  (Integer (digits_value c)), 5))" for P fuel
    using lits ops no
    by (simp add: parseLogical_def parseRelation_single parseLogical_loop_exit
        current_op_def no_operator_at_end Let_def)
  show ?thesis
    unfolding parse_unfold by (simp add: L)
qed

lemma precedence_plain:
  assumes lits: "integer_literal a" "integer_literal b" "integer_literal c"
    and ops: "Term_check aop" "Factor_check mop"
  shows "parse [a, aop, b, mop, c] =
     Some (Inr (Term aop (Integer (digits_value a))
                  (Factor mop (Integer (digits_value b)) (Integer (digits_value c))), 5))"
    and "parse [a, mop, b, aop, c] =
     Some (Inr (Term aop (Factor mop (Integer (digits_value a)) (Integer (digits_value b)))
                  (Integer (digits_value c)), 5))"
proof -
  from ops have no: "\<not> Factor_check aop"
    by (simp add: operator_classes_disjoint)
  have T1: "parseTerm P (Suc fuel) [a, aop, b, mop, c] 0 =
     Some (Inr (Term aop (Integer (digits_value a))
                  (Factor mop (Integer (digits_value b)) (Integer (digits_value c))), 5))"
    for P fuel
    using lits ops no
    by (simp add: parseTerm_def parseFactor_def parsePrimary_literal parseFactor_loop_exit
        parseTerm_loop_exit current_op_def no_operator_at_end Let_def)
  show "parse [a, aop, b, mop, c] =
     Some (Inr (Term aop (Integer (digits_value a))
                  (Factor mop (Integer (digits_value b)) (Integer (digits_value c))), 5))"
    unfolding parse_unfold parseLogical_def parseRelation_def
    by (simp add: T1 parseRelation_loop_exit parseLogical_loop_exit
        current_op_def no_operator_at_end)
  have T2: "parseTerm P (Suc fuel) [a, mop, b, aop, c] 0 =
     Some (Inr (Term aop (Factor mop (Integer (digits_value a)) (Integer (digits_value b)))
                  (Integer (digits_value c)), 5))"
    for P fuel
    using lits ops no
    by (simp add: parseTerm_def parseFactor_def parsePrimary_literal parseFactor_loop_exit
        parseTerm_loop_exit current_op_def no_operator_at_end Let_def)
  show "parse [a, mop, b, aop, c] =
     Some (Inr (Term aop (Factor mop (Integer (digits_value a)) (Integer (digits_value b)))
                  (Integer (digits_value c)), 5))"
    unfolding parse_unfold parseLogical_def parseRelation_def
    by (simp add: T2 parseRelation_loop_exit parseLogical_loop_exit
        current_op_def no_operator_at_end)
qed

lemma precedence_parenthesized:
  assumes lits: "integer_literal a" "integer_literal b" "integer_literal c"
    and ops: "Term_check aop" "Factor_check mop"
  shows "parse [''('', a, aop, b, '')'', mop, c] =
     Some (Inr (Factor mop (Term aop (Integer (digits_value a)) (Integer (digits_value b)))
                  (Integer (digits_value c)), 7))"
proof -
  let ?toks = "[''('', a, aop, b, '')'', mop, c]"
  from ops have no: "\<not> Factor_check aop"
    by (simp add: operator_classes_disjoint)
  have T: "parseTerm P (Suc fuel) ?toks (Suc 0) =
     Some (Inr (Term aop (Integer (digits_value a)) (Integer (digits_value b)), 4))" for P fuel
    using lits ops no
    by (simp add: parseTerm_def parseFactor_single parseTerm_loop_exit
        current_op_def parenthesis_checks Let_def)
  have inner: "parseLogical P (Suc fuel) ?toks (Suc 0) =
     Some (Inr (Term aop (Integer (digits_value a)) (Integer (digits_value b)), 4))" for P fuel
    unfolding parseLogical_def parseRelation_def
    by (simp add: T parseRelation_loop_exit parseLogical_loop_exit current_op_def
        parenthesis_checks)
  obtain n where len: "length ?toks = Suc n" by simp
  have P: "parsePrimary (parseLogical Q (Suc m) ?toks) ?toks 0 =
     Some (Inr (Term aop (Integer (digits_value a)) (Integer (digits_value b)), 5))" for Q m
    by (simp add: parsePrimary_def stoll_parenthesis inner)
  have F: "parseFactor (parseLogical Q (Suc m) ?toks) (Suc fuel) ?toks 0 =
     Some (Inr (Factor mop (Term aop (Integer (digits_value a)) (Integer (digits_value b)))
                  (Integer (digits_value c)), 7))" for Q m fuel
    using lits ops
    by (simp add: parseFactor_def P parsePrimary_literal parseFactor_loop_exit
        current_op_def no_operator_at_end Let_def)
  show ?thesis
    unfolding parse_unfold len parseLogical_def parseRelation_def parseTerm_def
    by (simp add: F parseTerm_loop_exit parseRelation_loop_exit parseLogical_loop_exit
        current_op_def no_operator_at_end)
qed

lemma current_op_append:
  "t < length tokens \<Longrightarrow> current_op (tokens @ [op]) t = current_op tokens t"
  "current_op (tokens @ [op]) (length tokens) = op"
  "current_op tokens (length tokens) = []"
  by (simp_all add: current_op_def nth_append)

lemma parsePrimary_extends:
  assumes inner: "extends tokens op True P P'"
  shows "extends tokens op False (parsePrimary P tokens) (parsePrimary P' (tokens @ [op]))"
  unfolding extends_def
proof (intro allI impI)
  fix t
  assume t: "t \<le> length tokens"
  let ?p = "parsePrimary P tokens t" and ?p' = "parsePrimary P' (tokens @ [op]) t"
  show "(?p = Some (Inl (Undefined increment_end)) \<longrightarrow> ?p' = at_end)
    \<and> (\<forall>e j. ?p = Some (Inr (e, j)) \<longrightarrow>
          t < j \<and> j \<le> length tokens
          \<and> (j < length tokens \<longrightarrow> ?p' = Some (Inr (e, j)))
          \<and> (j = length tokens \<longrightarrow> ?p' = (if False then at_end else Some (Inr (e, j)))))"
  proof (cases "t < length tokens")
    case False
    with t show ?thesis by (simp add: parsePrimary_def)
  next
    case True
    then have same: "(tokens @ [op]) ! t = tokens ! t" by (simp add: nth_append)
    from True have "t + 1 \<le> length tokens" by simp
    note ext = inner [unfolded extends_def, rule_format, OF this]
    from ext have P1:
      "P (t + 1) = Some (Inl (Undefined increment_end)) \<longrightarrow> P' (t + 1) = at_end"
      by simp
    from ext have P2: "P (t + 1) = Some (Inr (e, j)) \<Longrightarrow>
         t + 1 < j \<and> j \<le> length tokens
         \<and> (j < length tokens \<longrightarrow> P' (t + 1) = Some (Inr (e, j)))
         \<and> (j = length tokens \<longrightarrow> P' (t + 1) = at_end)" for e j
      by simp
    show ?thesis
    proof (cases "stoll (tokens ! t)")
      case (Inr v)
      with True same show ?thesis by (auto simp: parsePrimary_def)
    next
      case (Inl err)
      show ?thesis
      proof (cases "err = invalid_argument \<and> tokens ! t = ''(''")
        case False
        with Inl True show ?thesis
          by (cases err) (auto simp: parsePrimary_def)
      next
        case paren: True
        show ?thesis
        proof (cases "P (t + 1)")
          case None
          with paren Inl True show ?thesis by (simp add: parsePrimary_def)
        next
          case (Some r)
          show ?thesis
          proof (cases r)
            case (Inl e')
            with Some P1 paren \<open>stoll (tokens ! t) = Inl err\<close> True same show ?thesis
              by (auto simp: parsePrimary_def)
          next
            case (Inr found)
            obtain e' j' where found: "found = (e', j')" by (cases found)
            from P2 [of e' j'] Some Inr found
            have j': "t + 1 < j'" "j' \<le> length tokens"
              "j' < length tokens \<longrightarrow> P' (t + 1) = Some (Inr (e', j'))"
              "j' = length tokens \<longrightarrow> P' (t + 1) = at_end"
              by auto
            show ?thesis
            proof (cases "j' < length tokens")
              case True
              with j' Some Inr found paren \<open>stoll (tokens ! t) = Inl err\<close> \<open>t < length tokens\<close> same
              show ?thesis by (auto simp: parsePrimary_def)
            next
              case False
              with j' have "j' = length tokens" by simp
              with j' Some Inr found paren \<open>stoll (tokens ! t) = Inl err\<close> \<open>t < length tokens\<close> same
              show ?thesis by (auto simp: parsePrimary_def)
            qed
          qed
        qed
      qed
    qed
  qed
qed


lemma level_extends:
  fixes loop loop' :: "nat \<Rightarrow> Expression \<Rightarrow> nat \<Rightarrow> parsed"
    and operand operand' level level' :: "nat \<Rightarrow> nat \<Rightarrow> parsed"
  assumes loop_0: "\<And>left t. loop 0 left t =
      (if check (current_op tokens t) then None else Some (Inr (left, t)))"
    and loop_Suc: "\<And>f left t. loop (Suc f) left t =
      (let op' = current_op tokens t in
       if check op' then
         (case operand (Suc f) (t + 1) of
            None \<Rightarrow> None
          | Some (Inl e) \<Rightarrow> Some (Inl e)
          | Some (Inr (right, t')) \<Rightarrow> loop f (mk op' left right) t')
       else Some (Inr (left, t)))"
    and loop'_Suc: "\<And>f left t. loop' (Suc f) left t =
      (let op' = current_op (tokens @ [op]) t in
       if check op' then
         (case operand' (Suc f) (t + 1) of
            None \<Rightarrow> None
          | Some (Inl e) \<Rightarrow> Some (Inl e)
          | Some (Inr (right, t')) \<Rightarrow> loop' f (mk op' left right) t')
       else Some (Inr (left, t)))"
    and level: "\<And>f t. level f t =
      (case operand f t of
         None \<Rightarrow> None
       | Some (Inl e) \<Rightarrow> Some (Inl e)
       | Some (Inr (left, t')) \<Rightarrow> loop f left t')"
    and level': "\<And>f t. level' f t =
      (case operand' f t of
         None \<Rightarrow> None
       | Some (Inl e) \<Rightarrow> Some (Inl e)
       | Some (Inr (left, t')) \<Rightarrow> loop' f left t')"
    and no_check: "\<not> check []"
    and operand: "\<And>f. extends tokens op inner (operand f) (operand' (Suc f))"
    and operand_end: "\<And>f. operand' f (Suc (length tokens)) = at_end"
  shows "extends tokens op (inner \<or> check op) (level f) (level' (Suc f))"
proof -
  have at_len: "loop f left (length tokens) = Some (Inr (left, length tokens))
      \<and> loop' (Suc f) left (length tokens)
          = (if check op then at_end else Some (Inr (left, length tokens)))" for f left
    using no_check operand_end [of "Suc f"]
    by (cases f) (simp_all add: loop_0 loop_Suc loop'_Suc current_op_append Let_def)
  have in_loop: "t < length tokens \<Longrightarrow>
      (loop f left t = Some (Inl (Undefined increment_end)) \<longrightarrow> loop' (Suc f) left t = at_end)
      \<and> (\<forall>e j. loop f left t = Some (Inr (e, j)) \<longrightarrow>
            t \<le> j \<and> j \<le> length tokens
            \<and> (j < length tokens \<longrightarrow> loop' (Suc f) left t = Some (Inr (e, j)))
            \<and> (j = length tokens \<longrightarrow>
                  loop' (Suc f) left t
                    = (if inner \<or> check op then at_end else Some (Inr (e, j)))))"
    for f left t
  proof (induction f arbitrary: left t)
    case 0
    then show ?case
      by (simp add: loop_0 loop'_Suc current_op_append Let_def)
  next
    case (Suc f)
    note t = \<open>t < length tokens\<close>
    show ?case
    proof (cases "check (current_op tokens t)")
      case False
      with t show ?thesis
        by (simp add: loop_Suc loop'_Suc current_op_append Let_def)
    next
      case True
      from t have "t + 1 \<le> length tokens" by simp
      note ext = operand [of "Suc f", unfolded extends_def, rule_format, OF this]
      show ?thesis
      proof (cases "operand (Suc f) (t + 1)")
        case None
        with True t show ?thesis
          by (simp add: loop_Suc Let_def)
      next
        case (Some r)
        show ?thesis
        proof (cases r)
          case (Inl err)
          with Some ext True t show ?thesis
            by (auto simp: loop_Suc loop'_Suc current_op_append Let_def)
        next
          case (Inr found)
          obtain right j1 where found: "found = (right, j1)" by (cases found)
          let ?left = "mk (current_op tokens t) left right"
          from ext Some Inr found have j1: "t + 1 < j1" "j1 \<le> length tokens"
            "j1 < length tokens \<longrightarrow> operand' (Suc (Suc f)) (t + 1) = Some (Inr (right, j1))"
            "j1 = length tokens \<longrightarrow> operand' (Suc (Suc f)) (t + 1)
               = (if inner then at_end else Some (Inr (right, j1)))"
            by simp_all
          have step: "loop (Suc f) left t = loop f ?left j1"
            using True Some Inr found by (simp add: loop_Suc Let_def)
          show ?thesis
          proof (cases "j1 < length tokens")
            case less: True
            with j1 True t have step': "loop' (Suc (Suc f)) left t = loop' (Suc f) ?left j1"
              by (simp add: loop'_Suc current_op_append Let_def)
            from Suc.IH [OF less, of ?left] j1(1) show ?thesis
              unfolding step step' by auto
          next
            case False
            with j1 have eq: "j1 = length tokens" by simp
            with j1 True t have step': "loop' (Suc (Suc f)) left t
                = (if inner then at_end else loop' (Suc f) ?left (length tokens))"
              by (simp add: loop'_Suc current_op_append Let_def)
            from at_len [of f ?left] t show ?thesis
              unfolding step step' eq by auto
          qed
        qed
      qed
    qed
  qed
  show ?thesis
    unfolding extends_def
  proof (intro allI impI)
    fix t
    assume t: "t \<le> length tokens"
    note ext = operand [of f, unfolded extends_def, rule_format, OF t]
    show "(level f t = Some (Inl (Undefined increment_end)) \<longrightarrow> level' (Suc f) t = at_end)
      \<and> (\<forall>e j. level f t = Some (Inr (e, j)) \<longrightarrow>
            t < j \<and> j \<le> length tokens
            \<and> (j < length tokens \<longrightarrow> level' (Suc f) t = Some (Inr (e, j)))
            \<and> (j = length tokens \<longrightarrow>
                  level' (Suc f) t
                    = (if inner \<or> check op then at_end else Some (Inr (e, j)))))"
    proof (cases "operand f t")
      case None
      then show ?thesis by (simp add: level)
    next
      case (Some r)
      show ?thesis
      proof (cases r)
        case (Inl err)
        with Some ext show ?thesis
          by (auto simp: level level')
      next
        case (Inr found)
        obtain left t1 where found: "found = (left, t1)" by (cases found)
        from ext Some Inr found have t1: "t < t1" "t1 \<le> length tokens"
          "t1 < length tokens \<longrightarrow> operand' (Suc f) t = Some (Inr (left, t1))"
          "t1 = length tokens \<longrightarrow> operand' (Suc f) t
             = (if inner then at_end else Some (Inr (left, t1)))"
          by simp_all
        have step: "level f t = loop f left t1"
          using Some Inr found by (simp add: level)
        show ?thesis
        proof (cases "t1 < length tokens")
          case True
          with t1 have step': "level' (Suc f) t = loop' (Suc f) left t1"
            by (simp add: level')
          from in_loop [OF True, of f left] t1(1) show ?thesis
            unfolding step step' by auto
        next
          case False
          with t1 have eq: "t1 = length tokens" by simp
          with t1 have step': "level' (Suc f) t
              = (if inner then at_end else loop' (Suc f) left (length tokens))"
            by (simp add: level')
          from t1(1) eq have "t < length tokens" by simp
          with at_len [of f left] show ?thesis
            unfolding step step' eq by auto
        qed
      qed
    qed
  qed
qed


lemma operands_at_end:
  "parsePrimary P (tokens @ [op]) (Suc (length tokens)) = at_end"
  "parseFactor P f (tokens @ [op]) (Suc (length tokens)) = at_end"
  "parseTerm P f (tokens @ [op]) (Suc (length tokens)) = at_end"
  "parseRelation P f (tokens @ [op]) (Suc (length tokens)) = at_end"
  by (simp_all add: parsePrimary_def parseFactor_def parseTerm_def parseRelation_def)

lemma parseFactor_extends:
  assumes "extends tokens op True P P'"
  shows "extends tokens op (Factor_check op)
    (parseFactor P f tokens) (parseFactor P' (Suc f) (tokens @ [op]))"
  using level_extends [where loop = "\<lambda>f left t. parseFactor_loop P f tokens left t"
      and loop' = "\<lambda>f left t. parseFactor_loop P' f (tokens @ [op]) left t"
      and operand = "\<lambda>f. parsePrimary P tokens"
      and operand' = "\<lambda>f. parsePrimary P' (tokens @ [op])"
      and level = "\<lambda>f. parseFactor P f tokens"
      and level' = "\<lambda>f. parseFactor P' f (tokens @ [op])"
      and check = Factor_check and mk = Factor and inner = False and tokens = tokens
      and op = op and f = f]
    parsePrimary_extends [OF assms]
  by (simp add: parseFactor_def no_operator_at_end operands_at_end)

lemma parseTerm_extends:
  assumes "extends tokens op True P P'"
  shows "extends tokens op (Factor_check op \<or> Term_check op)
    (parseTerm P f tokens) (parseTerm P' (Suc f) (tokens @ [op]))"
  using level_extends [where loop = "\<lambda>f left t. parseTerm_loop P f tokens left t"
      and loop' = "\<lambda>f left t. parseTerm_loop P' f (tokens @ [op]) left t"
      and operand = "\<lambda>f. parseFactor P f tokens"
      and operand' = "\<lambda>f. parseFactor P' f (tokens @ [op])"
      and level = "\<lambda>f. parseTerm P f tokens"
      and level' = "\<lambda>f. parseTerm P' f (tokens @ [op])"
      and check = Term_check and mk = Term and inner = "Factor_check op" and tokens = tokens
      and op = op and f = f]
    parseFactor_extends [OF assms]
  by (simp add: parseTerm_def no_operator_at_end operands_at_end)

lemma parseRelation_extends:
  assumes "extends tokens op True P P'"
  shows "extends tokens op (Factor_check op \<or> Term_check op \<or> Relation_check op)
    (parseRelation P f tokens) (parseRelation P' (Suc f) (tokens @ [op]))"
  using level_extends [where loop = "\<lambda>f left t. parseRelation_loop P f tokens left t"
      and loop' = "\<lambda>f left t. parseRelation_loop P' f (tokens @ [op]) left t"
      and operand = "\<lambda>f. parseTerm P f tokens"
      and operand' = "\<lambda>f. parseTerm P' f (tokens @ [op])"
      and level = "\<lambda>f. parseRelation P f tokens"
      and level' = "\<lambda>f. parseRelation P' f (tokens @ [op])"
      and check = Relation_check and mk = Relation
      and inner = "Factor_check op \<or> Term_check op" and tokens = tokens
      and op = op and f = f]
    parseTerm_extends [OF assms]
  by (simp add: parseRelation_def no_operator_at_end operands_at_end disj_assoc)

lemma parseLogical_extends:
  assumes "extends tokens op True P P'"
  shows "extends tokens op
    (Factor_check op \<or> Term_check op \<or> Relation_check op \<or> Logical_check op)
    (parseLogical P f tokens) (parseLogical P' (Suc f) (tokens @ [op]))"
  using level_extends [where loop = "\<lambda>f left t. parseLogical_loop P f tokens left t"
      and loop' = "\<lambda>f left t. parseLogical_loop P' f (tokens @ [op]) left t"
      and operand = "\<lambda>f. parseRelation P f tokens"
      and operand' = "\<lambda>f. parseRelation P' f (tokens @ [op])"
      and level = "\<lambda>f. parseLogical P f tokens"
      and level' = "\<lambda>f. parseLogical P' f (tokens @ [op])"
      and check = Logical_check and mk = Logical
      and inner = "Factor_check op \<or> Term_check op \<or> Relation_check op" and tokens = tokens
      and op = op and f = f]
    parseRelation_extends [OF assms]
  by (simp add: parseLogical_def no_operator_at_end operands_at_end disj_assoc)

lemma parse_fuel_extends:
  assumes op: "Factor_check op \<or> Term_check op \<or> Relation_check op \<or> Logical_check op"
  shows "extends tokens op True (parse_fuel f tokens) (parse_fuel (Suc f) (tokens @ [op]))"
proof (induction f)
  case 0
  show ?case by (simp add: extends_def)
next
  case (Suc f)
  from parseLogical_extends [OF Suc, of "Suc f"] op show ?case
    by simp
qed

lemma parse_dangling_operator:
  assumes op: "Factor_check op \<or> Term_check op \<or> Relation_check op \<or> Logical_check op"
    and complete: "parse tokens = Some (Inr (e, length tokens))
      \<or> parse tokens = Some (Inl (Undefined increment_end))"
  shows "parse (tokens @ [op]) = at_end"
  using parse_fuel_extends [OF op, of tokens "Suc (length tokens)", unfolded extends_def,
      rule_format, of 0] complete
  unfolding parse_def by auto

section \<open>The parser always returns\<close>

lemma parsePrimary_returns:
  assumes inner: "\<And>t'. t < t' \<Longrightarrow> t' \<le> length tokens \<Longrightarrow> returns tokens P t'"
    and t: "t \<le> length tokens"
  shows "returns tokens (parsePrimary P tokens) t"
proof (cases "t < length tokens")
  case False
  then show ?thesis by (simp add: returns_def parsePrimary_def)
next
  case True
  then have P: "returns tokens P (t + 1)"
    by (intro inner) simp_all
  show ?thesis
  proof (cases "stoll (tokens ! t)")
    case (Inr v)
    with True show ?thesis by (simp add: returns_def parsePrimary_def)
  next
    case (Inl err)
    show ?thesis
    proof (cases "err = invalid_argument \<and> tokens ! t = ''(''")
      case False
      with Inl True show ?thesis
        by (cases err) (simp_all add: returns_def parsePrimary_def)
    next
      case paren: True
      from P obtain r where r: "P (t + 1) = Some r"
        unfolding returns_def by blast
      show ?thesis
      proof (cases r)
        case (Inl e')
        with r paren \<open>stoll (tokens ! t) = Inl err\<close> True show ?thesis
          by (simp add: returns_def parsePrimary_def)
      next
        case (Inr found)
        obtain e' j' where found: "found = (e', j')" by (cases found)
        with P r Inr have "t + 1 < j'" "j' \<le> length tokens"
          unfolding returns_def by simp_all
        with r Inr found paren \<open>stoll (tokens ! t) = Inl err\<close> True show ?thesis
          by (simp add: returns_def parsePrimary_def)
      qed
    qed
  qed
qed

lemma level_returns:
  fixes loop :: "nat \<Rightarrow> Expression \<Rightarrow> nat \<Rightarrow> parsed"
    and operand level :: "nat \<Rightarrow> nat \<Rightarrow> parsed"
  assumes loop_0: "\<And>left t. loop 0 left t =
      (if check (current_op tokens t) then None else Some (Inr (left, t)))"
    and loop_Suc: "\<And>f left t. loop (Suc f) left t =
      (let op' = current_op tokens t in
       if check op' then
         (case operand (Suc f) (t + 1) of
            None \<Rightarrow> None
          | Some (Inl e) \<Rightarrow> Some (Inl e)
          | Some (Inr (right, t')) \<Rightarrow> loop f (mk op' left right) t')
       else Some (Inr (left, t)))"
    and level: "\<And>f t. level f t =
      (case operand f t of
         None \<Rightarrow> None
       | Some (Inl e) \<Rightarrow> Some (Inl e)
       | Some (Inr (left, t')) \<Rightarrow> loop f left t')"
    and no_check: "\<not> check []"
    and operand: "\<And>f t. start \<le> t \<Longrightarrow> t \<le> length tokens \<Longrightarrow> length tokens \<le> f + t \<Longrightarrow>
      returns tokens (operand f) t"
    and t: "start \<le> t" "t \<le> length tokens" "length tokens \<le> f + t"
  shows "returns tokens (level f) t"
proof -
  have in_loop: "start \<le> t \<Longrightarrow> t \<le> length tokens \<Longrightarrow> length tokens \<le> f + t \<Longrightarrow>
      (\<exists>r. loop f left t = Some r)
      \<and> (\<forall>e j. loop f left t = Some (Inr (e, j)) \<longrightarrow> t \<le> j \<and> j \<le> length tokens)"
    for f left t
  proof (induction f arbitrary: left t)
    case 0
    then have "t = length tokens" by simp
    with no_check show ?case by (simp add: loop_0 current_op_def)
  next
    case (Suc f)
    show ?case
    proof (cases "check (current_op tokens t)")
      case False
      with Suc.prems show ?thesis by (simp add: loop_Suc Let_def)
    next
      case True
      with no_check have "t \<noteq> length tokens"
        by (auto simp: current_op_def)
      with Suc.prems have less: "t < length tokens" by simp
      with Suc.prems have op: "returns tokens (operand (Suc f)) (t + 1)"
        by (intro operand) simp_all
      then obtain r where r: "operand (Suc f) (t + 1) = Some r"
        unfolding returns_def by blast
      show ?thesis
      proof (cases r)
        case (Inl e)
        with r True show ?thesis by (simp add: loop_Suc Let_def)
      next
        case (Inr found)
        obtain right j where found: "found = (right, j)" by (cases found)
        with op r Inr have j: "t + 1 < j" "j \<le> length tokens"
          unfolding returns_def by simp_all
        with Suc.prems have "start \<le> j" "length tokens \<le> f + j" by simp_all
        from Suc.IH [OF this(1) j(2) this(2), of "mk (current_op tokens t) left right"]
        have "(\<exists>r. loop f (mk (current_op tokens t) left right) j = Some r)
          \<and> (\<forall>e j'. loop f (mk (current_op tokens t) left right) j = Some (Inr (e, j'))
                \<longrightarrow> j \<le> j' \<and> j' \<le> length tokens)" .
        moreover have "loop (Suc f) left t = loop f (mk (current_op tokens t) left right) j"
          using r Inr found True by (simp add: loop_Suc Let_def)
        ultimately show ?thesis using j(1) by auto
      qed
    qed
  qed
  from operand [OF t] obtain r where r: "operand f t = Some r"
    unfolding returns_def by blast
  show ?thesis
  proof (cases r)
    case (Inl e)
    with r show ?thesis by (simp add: returns_def level)
  next
    case (Inr found)
    obtain left t1 where found: "found = (left, t1)" by (cases found)
    with operand [OF t] r Inr have t1: "t < t1" "t1 \<le> length tokens"
      unfolding returns_def by simp_all
    with t have "start \<le> t1" "length tokens \<le> f + t1" by simp_all
    from in_loop [OF this(1) t1(2) this(2), of left]
    have "(\<exists>r. loop f left t1 = Some r)
      \<and> (\<forall>e j. loop f left t1 = Some (Inr (e, j)) \<longrightarrow> t1 \<le> j \<and> j \<le> length tokens)" .
    moreover have "level f t = loop f left t1"
      using r Inr found by (simp add: level)
    ultimately show ?thesis using t1(1) unfolding returns_def by auto
  qed
qed

lemma parseFactor_returns:
  assumes inner: "\<And>t'. start < t' \<Longrightarrow> t' \<le> length tokens \<Longrightarrow> returns tokens P t'"
    and t: "start \<le> t" "t \<le> length tokens" "length tokens \<le> f + t"
  shows "returns tokens (parseFactor P f tokens) t"
proof (rule level_returns [where loop = "\<lambda>f left t. parseFactor_loop P f tokens left t"
      and operand = "\<lambda>f. parsePrimary P tokens" and check = Factor_check and mk = Factor
      and start = start, OF _ _ _ _ _ t])
  fix g u
  assume "start \<le> u" "u \<le> length tokens"
  then show "returns tokens (parsePrimary P tokens) u"
    by (intro parsePrimary_returns inner) simp_all
qed (simp_all add: parseFactor_def no_operator_at_end)

lemma parseTerm_returns:
  assumes inner: "\<And>t'. start < t' \<Longrightarrow> t' \<le> length tokens \<Longrightarrow> returns tokens P t'"
    and t: "start \<le> t" "t \<le> length tokens" "length tokens \<le> f + t"
  shows "returns tokens (parseTerm P f tokens) t"
proof (rule level_returns [where loop = "\<lambda>f left t. parseTerm_loop P f tokens left t"
      and operand = "\<lambda>f. parseFactor P f tokens" and check = Term_check and mk = Term
      and start = start, OF _ _ _ _ _ t])
  fix g u
  assume "start \<le> u" "u \<le> length tokens" "length tokens \<le> g + u"
  then show "returns tokens (parseFactor P g tokens) u"
    by (intro parseFactor_returns [where start = start] inner) simp_all
qed (simp_all add: parseTerm_def no_operator_at_end)

lemma parseRelation_returns:
  assumes inner: "\<And>t'. start < t' \<Longrightarrow> t' \<le> length tokens \<Longrightarrow> returns tokens P t'"
    and t: "start \<le> t" "t \<le> length tokens" "length tokens \<le> f + t"
  shows "returns tokens (parseRelation P f tokens) t"
proof (rule level_returns [where loop = "\<lambda>f left t. parseRelation_loop P f tokens left t"
      and operand = "\<lambda>f. parseTerm P f tokens" and check = Relation_check and mk = Relation
      and start = start, OF _ _ _ _ _ t])
  fix g u
  assume "start \<le> u" "u \<le> length tokens" "length tokens \<le> g + u"
  then show "returns tokens (parseTerm P g tokens) u"
    by (intro parseTerm_returns [where start = start] inner) simp_all
qed (simp_all add: parseRelation_def no_operator_at_end)

lemma parseLogical_returns:
  assumes inner: "\<And>t'. start < t' \<Longrightarrow> t' \<le> length tokens \<Longrightarrow> returns tokens P t'"
    and t: "start \<le> t" "t \<le> length tokens" "length tokens \<le> f + t"
  shows "returns tokens (parseLogical P f tokens) t"
proof (rule level_returns [where loop = "\<lambda>f left t. parseLogical_loop P f tokens left t"
      and operand = "\<lambda>f. parseRelation P f tokens" and check = Logical_check and mk = Logical
      and start = start, OF _ _ _ _ _ t])
  fix g u
  assume "start \<le> u" "u \<le> length tokens" "length tokens \<le> g + u"
  then show "returns tokens (parseRelation P g tokens) u"
    by (intro parseRelation_returns [where start = start] inner) simp_all
qed (simp_all add: parseLogical_def no_operator_at_end)

lemma parse_fuel_returns:
  "t \<le> length tokens \<Longrightarrow> length tokens < f + t \<Longrightarrow> returns tokens (parse_fuel f tokens) t"
proof (induction f arbitrary: t)
  case 0
  then show ?case by simp
next
  case (Suc f)
  have "returns tokens (parseLogical (parse_fuel f tokens) (Suc f) tokens) t"
  proof (rule parseLogical_returns [where start = t])
    fix t'
    assume "t < t'" "t' \<le> length tokens"
    with Suc.prems show "returns tokens (parse_fuel f tokens) t'"
      by (intro Suc.IH) simp_all
  qed (use Suc.prems in simp_all)
  then show ?case by simp
qed

lemma parse_returns: "\<exists>r. parse tokens = Some r"
  using parse_fuel_returns [of 0 tokens "Suc (length tokens)"]
  unfolding parse_def returns_def by simp

lemma run_returns: "\<exists>r. run s = Some r"
proof (cases "tokenize s")
  case (Inl e)
  then show ?thesis by (simp add: run_def)
next
  case (Inr tokens)
  from parse_returns [of tokens] obtain r where r: "parse tokens = Some r" ..
  show ?thesis
  proof (cases r)
    case (Inl e)
    with r Inr show ?thesis by (simp add: run_def)
  next
    case right: (Inr found)
    obtain tree j where "found = (tree, j)" by (cases found)
    with r Inr right show ?thesis by (simp add: run_def)
  qed
qed

section \<open>Facts about the case of letters\<close>

lemma length_lower [simp]: "length (lower s) = length s"
  by (simp add: lower_def)

lemma lower_Nil [simp]: "lower [] = []" "(lower s = []) = (s = [])"
  by (simp_all add: lower_def)

lemma lower_take: "lower (take n s) = take n (lower s)"
  by (simp add: lower_def take_map)

lemma lower_drop: "lower (drop n s) = drop n (lower s)"
  by (simp add: lower_def drop_map)

lemma literal_at_lower: "literal_at p (lower s) = map_option lower (literal_at p s)"
  by (simp add: literal_at_def lower_take [symmetric])

lemma class_at_lower: "class_at cls (lower s) = map_option lower (class_at cls s)"
  by (cases s) (simp_all add: class_at_def lower_def)

lemma takeWhile_digits_lower:
  "takeWhile (\<lambda>c. isdigit_c (tolower_c c)) (lower s)
     = lower (takeWhile (\<lambda>c. isdigit_c (tolower_c c)) s)"
  by (induction s) (simp_all add: lower_def)

lemma digits_at_lower: "digits_at (lower s) = map_option lower (digits_at s)"
  by (simp add: digits_at_def Let_def takeWhile_digits_lower del: isdigit_tolower)

lemma first_match_lower:
  "\<forall>alt \<in> set alts. alt (lower s) = map_option lower (alt s) \<Longrightarrow>
   first_match alts (lower s) = map_option lower (first_match alts s)"
proof (induction alts)
  case Nil
  then show ?case by simp
next
  case (Cons a alts)
  then have a: "a (lower s) = map_option lower (a s)"
    and rest: "first_match alts (lower s) = map_option lower (first_match alts s)"
    by simp_all
  show ?case
    by (cases "a s") (simp_all add: a rest)
qed

lemma token_at_lower: "token_at (lower s) = map_option lower (token_at s)"
  unfolding token_at_def
  by (rule first_match_lower) (simp add: literal_at_lower class_at_lower digits_at_lower)

lemma regex_search_lower:
  "regex_search (lower s) = map_option (\<lambda>(m, suf). (lower m, lower suf)) (regex_search s)"
proof (induction s)
  case Nil
  then show ?case by simp
next
  case (Cons c cs)
  have low: "lower (c # cs) = tolower_c c # lower cs"
    by (simp add: lower_def)
  show ?case
  proof (cases "token_at (c # cs)")
    case None
    with token_at_lower [of "c # cs"] have "token_at (tolower_c c # lower cs) = None"
      by (simp add: low)
    with None Cons show ?thesis by (simp add: low)
  next
    case (Some m)
    with token_at_lower [of "c # cs"] have "token_at (tolower_c c # lower cs) = Some (lower m)"
      by (simp add: low)
    moreover have "drop (length m) (tolower_c c # lower cs) = lower (drop (length m) (c # cs))"
      by (simp add: lower_drop low)
    ultimately show ?thesis using Some by (simp add: low)
  qed
qed

lemma tokenize_loop_lower:
  "tokenize_loop (lower s) [] = map lower (tokenize_loop s [])"
proof (induction "length s" arbitrary: s rule: less_induct)
  case less
  show ?case
  proof (cases "regex_search s")
    case None
    with regex_search_lower [of s] have "regex_search (lower s) = None" by simp
    with None show ?thesis
      by (simp add: tokenize_loop.simps [of s] tokenize_loop.simps [of "lower s"])
  next
    case (Some found)
    obtain m suf where found: "found = (m, suf)" by (cases found)
    with Some have shorter: "length suf < length s" by (simp add: regex_search_shorter)
    from Some found regex_search_lower [of s]
    have "regex_search (lower s) = Some (lower m, lower suf)" by simp
    then have "tokenize_loop (lower s) [] = lower m # tokenize_loop (lower suf) []"
      using tokenize_loop_found [of "lower s" "lower m" "lower suf" "[]"] by simp
    moreover have "tokenize_loop s [] = m # tokenize_loop suf []"
      using Some found tokenize_loop_found [of s m suf "[]"] by simp
    ultimately show ?thesis using less [OF shorter] by simp
  qed
qed

lemma tokenize_lower:
  "tokenize (lower s) = (case tokenize s of Inl e \<Rightarrow> Inl e | Inr tokens \<Rightarrow> Inr (map lower tokens))"
  by (simp add: tokenize_def Let_def tokenize_loop_lower)

lemma not_letters:
  "\<not> isalpha_c CHR ''-''" "\<not> isalpha_c CHR ''+''" "\<not> isalpha_c CHR 0x00"
  "\<not> isalpha_c CHR ''(''" "\<not> isalpha_c CHR ''*''" "\<not> isalpha_c CHR ''/''"
  "\<not> isalpha_c CHR ''<''" "\<not> isalpha_c CHR ''>''" "\<not> isalpha_c CHR ''=''"
  "\<not> isalpha_c CHR ''!''"
  by (simp_all add: isalpha_c_def)

lemma isdigit_tolower_id: "isdigit_c c \<Longrightarrow> tolower_c c = c"
  using isdigit_c_facts by blast

lemma digits_lower:
  "lower (takeWhile isdigit_c s) = takeWhile isdigit_c s"
  by (induction s) (simp_all add: lower_def isdigit_tolower_id)

lemma takeWhile_lower:
  "takeWhile isdigit_c (lower s) = lower (takeWhile isdigit_c s)"
  by (induction s) (simp_all add: lower_def)

lemma dropWhile_lower:
  "dropWhile isspace_c (lower s) = lower (dropWhile isspace_c s)"
  by (induction s) (simp_all add: lower_def)

lemma stoll_lower: "stoll (lower x) = stoll x"
proof (cases "dropWhile isspace_c x")
  case Nil
  show ?thesis
    unfolding stoll_def dropWhile_lower Nil by simp
next
  case (Cons c cs)
  have low: "lower (c # cs) = tolower_c c # lower cs"
    by (simp add: lower_def)
  have sign: "(tolower_c c = CHR ''-'') = (c = CHR ''-'')" "(tolower_c c = CHR ''+'') = (c = CHR ''+'')"
    by (simp_all add: tolower_c_eq_iff not_letters)
  have digits: "takeWhile isdigit_c (lower s) = takeWhile isdigit_c s" for s
    by (simp add: takeWhile_lower digits_lower)
  have tail: "takeWhile isdigit_c (tolower_c c # lower cs) = takeWhile isdigit_c (c # cs)"
    using digits [of "c # cs"] by (simp only: low)
  have s2: "takeWhile isdigit_c
        (if c = CHR ''-'' \<or> c = CHR ''+'' then lower cs else tolower_c c # lower cs)
      = takeWhile isdigit_c (if c = CHR ''-'' \<or> c = CHR ''+'' then cs else c # cs)"
    by (cases "c = CHR ''-'' \<or> c = CHR ''+''") (simp_all only: if_True if_False digits tail)
  show ?thesis
    unfolding stoll_def dropWhile_lower Cons low Let_def list.case sign s2 ..
qed

lemma lower_eq_operator:
  "(lower op = ''('') = (op = ''('')" "(lower op = ''*'') = (op = ''*'')"
  "(lower op = ''/'') = (op = ''/'')" "(lower op = ''+'') = (op = ''+'')"
  "(lower op = ''-'') = (op = ''-'')" "(lower op = ''<'') = (op = ''<'')"
  "(lower op = ''<='') = (op = ''<='')" "(lower op = ''>'') = (op = ''>'')"
  "(lower op = ''>='') = (op = ''>='')" "(lower op = ''=='') = (op = ''=='')"
  "(lower op = ''!='') = (op = ''!='')" "(lower op = ''/='') = (op = ''/='')"
  by (rule lower_eq_iff, simp add: not_letters)+

lemma checks_lower:
  "Logical_check (lower op) = Logical_check op"
  "Relation_check (lower op) = Relation_check op"
  "Factor_check (lower op) = Factor_check op"
  "Term_check (lower op) = Term_check op"
  by (simp_all add: Logical_check_def Relation_check_def Factor_check_def Term_check_def
      lower_eq_operator)

lemma c_str_lower: "c_str (lower a) = lower (c_str a)"
  unfolding c_str_def lower_def
  by (induction a) (simp_all add: tolower_c_eq_iff not_letters)

lemma strcmpi_eq_lower: "strcmpi_eq (lower a) b = strcmpi_eq a b"
  by (simp add: strcmpi_eq_def c_str_lower)

lemma Logical_calculate_lower: "Logical_calculate (lower op) = Logical_calculate op"
  unfolding Logical_calculate_def strcmpi_eq_lower ..

lemma Relation_calculate_lower: "Relation_calculate (lower op) = Relation_calculate op"
  unfolding Relation_calculate_def lower_eq_operator ..

lemma Factor_calculate_lower: "Factor_calculate (lower op) = Factor_calculate op"
  unfolding Factor_calculate_def lower_eq_operator ..

lemma Term_calculate_lower: "Term_calculate (lower op) = Term_calculate op"
  unfolding Term_calculate_def lower_eq_operator ..

lemma calculate_lower_ops: "calculate (lower_ops e) = calculate e"
  by (induction e)
    (simp_all add: Logical_calculate_lower Relation_calculate_lower Factor_calculate_lower
      Term_calculate_lower)

lemma current_op_lower:
  "t \<le> length tokens \<Longrightarrow> current_op (map lower tokens) t = lower (current_op tokens t)"
  by (simp add: current_op_def)

lemma lower_parsed_simps [simp]:
  "lower_parsed None = None"
  "lower_parsed (Some (Inl e)) = Some (Inl e)"
  "lower_parsed (Some (Inr (tree, token))) = Some (Inr (lower_ops tree, token))"
  by (simp_all add: lower_parsed_def)

lemma parsePrimary_lowered:
  assumes inner: "lowered tokens P P'"
  shows "lowered tokens (parsePrimary P tokens) (parsePrimary P' (map lower tokens))"
  unfolding lowered_def
proof (intro allI impI)
  fix t
  assume t: "t \<le> length tokens"
  let ?p = "parsePrimary P tokens t" and ?p' = "parsePrimary P' (map lower tokens) t"
  show "?p' = lower_parsed ?p \<and> (\<forall>e j. ?p = Some (Inr (e, j)) \<longrightarrow> j \<le> length tokens)"
  proof (cases "t < length tokens")
    case False
    with t show ?thesis by (simp add: parsePrimary_def)
  next
    case True
    then have "t + 1 \<le> length tokens" by simp
    note ext = inner [unfolded lowered_def, rule_format, OF this]
    from ext have P': "P' (t + 1) = lower_parsed (P (t + 1))" by simp
    from ext have bound: "P (t + 1) = Some (Inr (e, j)) \<Longrightarrow> j \<le> length tokens" for e j
      by simp
    from True have tok: "map lower tokens ! t = lower (tokens ! t)" by simp
    show ?thesis
    proof (cases "stoll (tokens ! t)")
      case (Inr v)
      with True tok show ?thesis by (simp add: parsePrimary_def stoll_lower)
    next
      case (Inl err)
      show ?thesis
      proof (cases "err = invalid_argument \<and> tokens ! t = ''(''")
        case False
        with Inl True tok show ?thesis
          by (cases err) (simp_all add: parsePrimary_def stoll_lower lower_eq_operator)
      next
        case paren: True
        show ?thesis
        proof (cases "P (t + 1)")
          case None
          with paren Inl True tok P' show ?thesis
            by (simp add: parsePrimary_def stoll_lower lower_eq_operator)
        next
          case (Some r)
          show ?thesis
          proof (cases r)
            case (Inl e')
            with Some paren \<open>stoll (tokens ! t) = Inl err\<close> True tok P' show ?thesis
              by (simp add: parsePrimary_def stoll_lower lower_eq_operator)
          next
            case (Inr found)
            obtain e' j' where found: "found = (e', j')" by (cases found)
            from bound [of e' j'] Some Inr found have "j' \<le> length tokens" by simp
            with Some Inr found paren \<open>stoll (tokens ! t) = Inl err\<close> True tok P' show ?thesis
              by (simp add: parsePrimary_def stoll_lower lower_eq_operator)
          qed
        qed
      qed
    qed
  qed
qed

lemma level_lowered:
  fixes loop loop' :: "nat \<Rightarrow> Expression \<Rightarrow> nat \<Rightarrow> parsed"
    and operand operand' level level' :: "nat \<Rightarrow> nat \<Rightarrow> parsed"
  assumes loop_0: "\<And>left t. loop 0 left t =
      (if check (current_op tokens t) then None else Some (Inr (left, t)))"
    and loop_Suc: "\<And>f left t. loop (Suc f) left t =
      (let op' = current_op tokens t in
       if check op' then
         (case operand (Suc f) (t + 1) of
            None \<Rightarrow> None
          | Some (Inl e) \<Rightarrow> Some (Inl e)
          | Some (Inr (right, t')) \<Rightarrow> loop f (mk op' left right) t')
       else Some (Inr (left, t)))"
    and loop'_0: "\<And>left t. loop' 0 left t =
      (if check (current_op (map lower tokens) t) then None else Some (Inr (left, t)))"
    and loop'_Suc: "\<And>f left t. loop' (Suc f) left t =
      (let op' = current_op (map lower tokens) t in
       if check op' then
         (case operand' (Suc f) (t + 1) of
            None \<Rightarrow> None
          | Some (Inl e) \<Rightarrow> Some (Inl e)
          | Some (Inr (right, t')) \<Rightarrow> loop' f (mk op' left right) t')
       else Some (Inr (left, t)))"
    and level: "\<And>f t. level f t =
      (case operand f t of
         None \<Rightarrow> None
       | Some (Inl e) \<Rightarrow> Some (Inl e)
       | Some (Inr (left, t')) \<Rightarrow> loop f left t')"
    and level': "\<And>f t. level' f t =
      (case operand' f t of
         None \<Rightarrow> None
       | Some (Inl e) \<Rightarrow> Some (Inl e)
       | Some (Inr (left, t')) \<Rightarrow> loop' f left t')"
    and no_check: "\<not> check []"
    and check: "\<And>op. check (lower op) = check op"
    and mk: "\<And>op left right.
      lower_ops (mk op left right) = mk (lower op) (lower_ops left) (lower_ops right)"
    and operand: "\<And>f. lowered tokens (operand f) (operand' f)"
  shows "lowered tokens (level f) (level' f)"
proof -
  have in_loop: "t \<le> length tokens \<Longrightarrow>
      loop' f (lower_ops left) t = lower_parsed (loop f left t)
      \<and> (\<forall>e j. loop f left t = Some (Inr (e, j)) \<longrightarrow> j \<le> length tokens)"
    for f left t
  proof (induction f arbitrary: left t)
    case 0
    then show ?case
      by (simp add: loop_0 loop'_0 current_op_lower check)
  next
    case (Suc f)
    note t = \<open>t \<le> length tokens\<close>
    show ?case
    proof (cases "check (current_op tokens t)")
      case False
      with t show ?thesis
        by (simp add: loop_Suc loop'_Suc current_op_lower check Let_def)
    next
      case True
      with no_check have "t \<noteq> length tokens"
        by (auto simp: current_op_def)
      with t have "t + 1 \<le> length tokens" by simp
      note ext = operand [of "Suc f", unfolded lowered_def, rule_format, OF this]
      from ext have op': "operand' (Suc f) (t + 1) = lower_parsed (operand (Suc f) (t + 1))"
        by simp
      from ext have bound: "operand (Suc f) (t + 1) = Some (Inr (e, j)) \<Longrightarrow> j \<le> length tokens"
        for e j by simp
      show ?thesis
      proof (cases "operand (Suc f) (t + 1)")
        case None
        with True t op' show ?thesis
          by (simp add: loop_Suc loop'_Suc current_op_lower check Let_def)
      next
        case (Some r)
        show ?thesis
        proof (cases r)
          case (Inl err)
          with Some True t op' show ?thesis
            by (simp add: loop_Suc loop'_Suc current_op_lower check Let_def)
        next
          case (Inr found)
          obtain right j1 where found: "found = (right, j1)" by (cases found)
          let ?left = "mk (current_op tokens t) left right"
          from bound [of right j1] Some Inr found have j1: "j1 \<le> length tokens" by simp
          have step: "loop (Suc f) left t = loop f ?left j1"
            using True Some Inr found by (simp add: loop_Suc Let_def)
          have step': "loop' (Suc f) (lower_ops left) t = loop' f (lower_ops ?left) j1"
            using True Some Inr found t op'
            by (simp add: loop'_Suc current_op_lower check mk Let_def)
          from Suc.IH [OF j1, of ?left] show ?thesis
            unfolding step step' .
        qed
      qed
    qed
  qed
  show ?thesis
    unfolding lowered_def
  proof (intro allI impI)
    fix t
    assume t: "t \<le> length tokens"
    note ext = operand [of f, unfolded lowered_def, rule_format, OF t]
    from ext have op': "operand' f t = lower_parsed (operand f t)" by simp
    from ext have bound: "operand f t = Some (Inr (e, j)) \<Longrightarrow> j \<le> length tokens" for e j
      by simp
    show "level' f t = lower_parsed (level f t)
      \<and> (\<forall>e j. level f t = Some (Inr (e, j)) \<longrightarrow> j \<le> length tokens)"
    proof (cases "operand f t")
      case None
      with op' show ?thesis by (simp add: level level')
    next
      case (Some r)
      show ?thesis
      proof (cases r)
        case (Inl err)
        with Some op' show ?thesis by (simp add: level level')
      next
        case (Inr found)
        obtain left t1 where found: "found = (left, t1)" by (cases found)
        from bound [of left t1] Some Inr found have t1: "t1 \<le> length tokens" by simp
        have step: "level f t = loop f left t1"
          using Some Inr found by (simp add: level)
        have step': "level' f t = loop' f (lower_ops left) t1"
          using Some Inr found op' by (simp add: level')
        from in_loop [OF t1, of f left] show ?thesis
          unfolding step step' .
      qed
    qed
  qed
qed

lemma parseFactor_lowered:
  assumes "lowered tokens P P'"
  shows "lowered tokens (parseFactor P f tokens) (parseFactor P' f (map lower tokens))"
  using level_lowered [where loop = "\<lambda>f left t. parseFactor_loop P f tokens left t"
      and loop' = "\<lambda>f left t. parseFactor_loop P' f (map lower tokens) left t"
      and operand = "\<lambda>f. parsePrimary P tokens"
      and operand' = "\<lambda>f. parsePrimary P' (map lower tokens)"
      and level = "\<lambda>f. parseFactor P f tokens"
      and level' = "\<lambda>f. parseFactor P' f (map lower tokens)"
      and check = Factor_check and mk = Factor and tokens = tokens and f = f]
    parsePrimary_lowered [OF assms]
  by (simp add: parseFactor_def no_operator_at_end checks_lower)

lemma parseTerm_lowered:
  assumes "lowered tokens P P'"
  shows "lowered tokens (parseTerm P f tokens) (parseTerm P' f (map lower tokens))"
  using level_lowered [where loop = "\<lambda>f left t. parseTerm_loop P f tokens left t"
      and loop' = "\<lambda>f left t. parseTerm_loop P' f (map lower tokens) left t"
      and operand = "\<lambda>f. parseFactor P f tokens"
      and operand' = "\<lambda>f. parseFactor P' f (map lower tokens)"
      and level = "\<lambda>f. parseTerm P f tokens"
      and level' = "\<lambda>f. parseTerm P' f (map lower tokens)"
      and check = Term_check and mk = Term and tokens = tokens and f = f]
    parseFactor_lowered [OF assms]
  by (simp add: parseTerm_def no_operator_at_end checks_lower)

lemma parseRelation_lowered:
  assumes "lowered tokens P P'"
  shows "lowered tokens (parseRelation P f tokens) (parseRelation P' f (map lower tokens))"
  using level_lowered [where loop = "\<lambda>f left t. parseRelation_loop P f tokens left t"
      and loop' = "\<lambda>f left t. parseRelation_loop P' f (map lower tokens) left t"
      and operand = "\<lambda>f. parseTerm P f tokens"
      and operand' = "\<lambda>f. parseTerm P' f (map lower tokens)"
      and level = "\<lambda>f. parseRelation P f tokens"
      and level' = "\<lambda>f. parseRelation P' f (map lower tokens)"
      and check = Relation_check and mk = Relation and tokens = tokens and f = f]
    parseTerm_lowered [OF assms]
  by (simp add: parseRelation_def no_operator_at_end checks_lower)

lemma parseLogical_lowered:
  assumes "lowered tokens P P'"
  shows "lowered tokens (parseLogical P f tokens) (parseLogical P' f (map lower tokens))"
  using level_lowered [where loop = "\<lambda>f left t. parseLogical_loop P f tokens left t"
      and loop' = "\<lambda>f left t. parseLogical_loop P' f (map lower tokens) left t"
      and operand = "\<lambda>f. parseRelation P f tokens"
      and operand' = "\<lambda>f. parseRelation P' f (map lower tokens)"
      and level = "\<lambda>f. parseLogical P f tokens"
      and level' = "\<lambda>f. parseLogical P' f (map lower tokens)"
      and check = Logical_check and mk = Logical and tokens = tokens and f = f]
    parseRelation_lowered [OF assms]
  by (simp add: parseLogical_def no_operator_at_end checks_lower)

lemma parse_fuel_lowered:
  "lowered tokens (parse_fuel f tokens) (parse_fuel f (map lower tokens))"
proof (induction f)
  case 0
  show ?case by (simp add: lowered_def)
next
  case (Suc f)
  from parseLogical_lowered [OF Suc, of "Suc f"] show ?case
    by simp
qed

lemma parse_lower: "parse (map lower tokens) = lower_parsed (parse tokens)"
  using parse_fuel_lowered [of tokens "Suc (length tokens)", unfolded lowered_def,
      rule_format, of 0]
  unfolding parse_def by simp

lemma run_lower: "run (lower s) = run s"
proof (cases "tokenize s")
  case (Inl e)
  then show ?thesis by (simp add: run_def tokenize_lower)
next
  case (Inr tokens)
  then have low: "tokenize (lower s) = Inr (map lower tokens)"
    by (simp add: tokenize_lower)
  show ?thesis
  proof (cases "parse tokens")
    case None
    with Inr low show ?thesis by (simp add: run_def parse_lower)
  next
    case (Some r)
    show ?thesis
    proof (cases r)
      case (Inl e)
      with Some Inr low show ?thesis by (simp add: run_def parse_lower)
    next
      case right: (Inr found)
      obtain tree j where "found = (tree, j)" by (cases found)
      with Some \<open>tokenize s = Inr tokens\<close> right low show ?thesis
        by (simp add: run_def parse_lower calculate_lower_ops del: calculate.simps)
    qed
  qed
qed

section \<open>The relational operator \<open>==\<close>\<close>

text \<open>
  C1. The claim: for integer literals \<open>a\<close> and \<open>b\<close> the input \<open>a == b\<close> tokenizes,
  parses and evaluates to 1 when \<open>a\<close> equals \<open>b\<close> and to 0 otherwise.
  \<open>Relation::calculate\<close> has a branch for the spelling \<open>==\<close>, but the pattern of the
  tokenizer has no alternative for it: the input \<open>1 == 1\<close> gives the four tokens
  \<open>1\<close>, \<open>=\<close>, \<open>=\<close>, \<open>1\<close>, the first \<open>=\<close> is taken as a relational operator, and
  \<open>parsePrimary\<close> throws on the second one. The same happens for \<open>5 == 3\<close>.
\<close>

theorem C1_double_equals_is_rejected:
  "tokenize ''1 == 1'' = Inr [''1'', ''='', ''='', ''1'']
   \<and> run ''1 == 1'' = Some (Inl (Thrown ''syntax error (primary)''))
   \<and> run ''5 == 3'' = Some (Inl (Thrown ''syntax error (primary)''))"
  by code_simp

section \<open>Division by zero\<close>

text \<open>
  C2. The claim: an evaluation that reaches a division whose right operand is 0, such as
  the input \<open>1/0\<close>, fails with an arithmetic error that is reported.
  \<open>Factor::calculate\<close> executes \<open>r1 / r2\<close> with no test of \<open>r2\<close>: for \<open>1/0\<close> the outcome is
  the undefined behaviour of the native division, not an exception.
\<close>

theorem C2_division_by_zero_is_unguarded:
  "parse [''1'', ''/'', ''0''] = Some (Inr (Factor ''/'' (Integer 1) (Integer 0), 3))
   \<and> run ''1/0'' = Some (Inl (Undefined division_by_zero))"
  by code_simp

section \<open>A parenthesis that is not closed\<close>

text \<open>
  C3. The claim: an input whose parenthesized sub-expression lacks its \<open>)\<close>, such as
  \<open>(1+2\<close>, fails with a syntax error and the parser never moves past the end of the
  tokens. \<open>parsePrimary\<close> executes \<open>token++\<close> after the inner \<open>parse()\<close> without looking
  at the token: for \<open>(1+2\<close> the cursor is already at \<open>tokens.end()\<close> and is incremented
  there, and for \<open>(1+2 3\<close> the token \<open>3\<close> is skipped as if it were the parenthesis.
\<close>

theorem C3_unclosed_parenthesis_increments_end:
  "tokenize ''(1+2'' = Inr [''('', ''1'', ''+'', ''2'']
   \<and> run ''(1+2'' = Some (Inl (Undefined increment_end))
   \<and> run ''(1+2 3'' = Some (Inr 3)"
  by code_simp

section \<open>An operator that no evaluation step knows\<close>

text \<open>
  C4. The claim: for every input that tokenizes and parses, evaluation never throws for
  an unknown operator spelling, because the checks of the parser admit only spellings
  that the evaluation handles. \<open>Relation::check\<close> admits the single \<open>=\<close>, which
  \<open>Relation::calculate\<close> does not handle: the input \<open>1=1\<close> tokenizes, parses to a
  \<open>Relation\<close> node with that operator, and its evaluation throws \<open>relation NONE\<close>.
\<close>

theorem C4_single_equals_reaches_relation_NONE:
  "tokenize ''1=1'' = Inr [''1'', ''='', ''1'']
   \<and> parse [''1'', ''='', ''1''] = Some (Inr (Relation ''='' (Integer 1) (Integer 1), 3))
   \<and> run ''1=1'' = Some (Inl (Thrown ''relation NONE''))"
  by code_simp

section \<open>Truth values of the logical operators\<close>

text \<open>
  C5, as the code has it. \<open>and\<close> and \<open>or\<close> take an operand as true exactly when it is
  greater than 0, \<open>xor\<close> exactly when it is not 0; each returns 1 when its condition
  holds on these truth values and 0 otherwise. So a negative operand is false for
  \<open>and\<close> and \<open>or\<close> and true for \<open>xor\<close>.
\<close>

theorem C5_logical_operators:
  "calculate (Logical ''and'' (Integer r1) (Integer r2))
     = Inr (if 0 < r1 \<and> 0 < r2 then 1 else 0)
   \<and> calculate (Logical ''or'' (Integer r1) (Integer r2))
     = Inr (if 0 < r1 \<or> 0 < r2 then 1 else 0)
   \<and> calculate (Logical ''xor'' (Integer r1) (Integer r2))
     = Inr (if (r1 \<noteq> 0) \<noteq> (r2 \<noteq> 0) then 1 else 0)"
  by (simp add: operands_def Logical_calculate_def strcmpi_eq_def c_str_def lower_def
      bool_ll_def tolower_c_def)

text \<open>
  C5 as the claim states it (an operand is true exactly when it is not 0, for all three
  operators) fails: \<open>-1 and 1\<close> is 0, \<open>-1 or 0\<close> is 0, and the input \<open>(0-1) and 1\<close>
  evaluates to 0.
\<close>

theorem C5_negative_operand_counterexample:
  "calculate (Logical ''and'' (Integer (- 1)) (Integer 1)) = Inr 0
   \<and> calculate (Logical ''or'' (Integer (- 1)) (Integer 0)) = Inr 0
   \<and> run ''(0-1) and 1'' = Some (Inr 0)"
  by code_simp

section \<open>Left associativity\<close>

text \<open>
  C7. Binary operators of one level group to the left. For all integer literals \<open>a\<close>,
  \<open>b\<close>, \<open>c\<close> and any two operators \<open>op1\<close>, \<open>op2\<close> of the same level (multiplicative,
  additive, relational or logical), the tokens \<open>a op1 b op2 c\<close> are parsed as
  \<open>(a op1 b) op2 c\<close>. In particular the input \<open>a - b - c\<close>, with or without the blanks,
  gives the tokens \<open>a\<close>, \<open>-\<close>, \<open>b\<close>, \<open>-\<close>, \<open>c\<close>, is parsed as \<open>(a - b) - c\<close> and evaluates to
  that difference when it fits \<open>long long\<close>; \<open>10-3-2\<close> evaluates to 5.
\<close>

theorem C7_left_associative:
  "integer_literal a \<Longrightarrow> integer_literal b \<Longrightarrow> integer_literal c \<Longrightarrow>
   (Factor_check op1 \<and> Factor_check op2 \<longrightarrow>
      parse [a, op1, b, op2, c]
        = Some (Inr (Factor op2 (Factor op1 (Integer (digits_value a)) (Integer (digits_value b)))
                       (Integer (digits_value c)), 5)))
   \<and> (Term_check op1 \<and> Term_check op2 \<longrightarrow>
      parse [a, op1, b, op2, c]
        = Some (Inr (Term op2 (Term op1 (Integer (digits_value a)) (Integer (digits_value b)))
                       (Integer (digits_value c)), 5)))
   \<and> (Relation_check op1 \<and> Relation_check op2 \<longrightarrow>
      parse [a, op1, b, op2, c]
        = Some (Inr (Relation op2
                       (Relation op1 (Integer (digits_value a)) (Integer (digits_value b)))
                       (Integer (digits_value c)), 5)))
   \<and> (Logical_check op1 \<and> Logical_check op2 \<longrightarrow>
      parse [a, op1, b, op2, c]
        = Some (Inr (Logical op2
                       (Logical op1 (Integer (digits_value a)) (Integer (digits_value b)))
                       (Integer (digits_value c)), 5)))
   \<and> tokenize (a @ '' - '' @ b @ '' - '' @ c) = Inr [a, ''-'', b, ''-'', c]
   \<and> tokenize (a @ ''-'' @ b @ ''-'' @ c) = Inr [a, ''-'', b, ''-'', c]
   \<and> parse [a, ''-'', b, ''-'', c]
       = Some (Inr (Term ''-'' (Term ''-'' (Integer (digits_value a)) (Integer (digits_value b)))
                      (Integer (digits_value c)), 5))
   \<and> run (a @ '' - '' @ b @ '' - '' @ c)
       = Some (ll_result (digits_value a - digits_value b - digits_value c))
   \<and> run (a @ ''-'' @ b @ ''-'' @ c)
       = Some (ll_result (digits_value a - digits_value b - digits_value c))
   \<and> run ''10-3-2'' = Some (Inr 5)
   \<and> run ''2*3*4'' = Some (Inr 24)
   \<and> run ''100/5/2'' = Some (Inr 10)"
proof (intro conjI impI)
  assume lits: "integer_literal a" "integer_literal b" "integer_literal c"
  show t1: "tokenize (a @ '' - '' @ b @ '' - '' @ c) = Inr [a, ''-'', b, ''-'', c]"
    by (rule tokenize_subtractions(1) [OF lits])
  show t2: "tokenize (a @ ''-'' @ b @ ''-'' @ c) = Inr [a, ''-'', b, ''-'', c]"
    by (rule tokenize_subtractions(2) [OF lits])
  show p: "parse [a, ''-'', b, ''-'', c]
       = Some (Inr (Term ''-'' (Term ''-'' (Integer (digits_value a)) (Integer (digits_value b)))
                      (Integer (digits_value c)), 5))"
    by (rule parse_left_assoc [OF lits])
  show "run (a @ '' - '' @ b @ '' - '' @ c)
       = Some (ll_result (digits_value a - digits_value b - digits_value c))"
    unfolding run_def t1 by (simp add: p calculate_left_assoc [OF lits] del: calculate.simps)
  show "run (a @ ''-'' @ b @ ''-'' @ c)
       = Some (ll_result (digits_value a - digits_value b - digits_value c))"
    unfolding run_def t2 by (simp add: p calculate_left_assoc [OF lits] del: calculate.simps)
  show "run ''10-3-2'' = Some (Inr 5)"
    by code_simp
  show "run ''2*3*4'' = Some (Inr 24)"
    by code_simp
  show "run ''100/5/2'' = Some (Inr 10)"
    by code_simp
next
  assume "integer_literal a" "integer_literal b" "integer_literal c"
    and "Factor_check op1 \<and> Factor_check op2"
  then show "parse [a, op1, b, op2, c]
        = Some (Inr (Factor op2 (Factor op1 (Integer (digits_value a)) (Integer (digits_value b)))
                       (Integer (digits_value c)), 5))"
    by (simp add: same_level_Factor)
next
  assume "integer_literal a" "integer_literal b" "integer_literal c"
    and "Term_check op1 \<and> Term_check op2"
  then show "parse [a, op1, b, op2, c]
        = Some (Inr (Term op2 (Term op1 (Integer (digits_value a)) (Integer (digits_value b)))
                       (Integer (digits_value c)), 5))"
    by (simp add: same_level_Term)
next
  assume "integer_literal a" "integer_literal b" "integer_literal c"
    and "Relation_check op1 \<and> Relation_check op2"
  then show "parse [a, op1, b, op2, c]
        = Some (Inr (Relation op2
                       (Relation op1 (Integer (digits_value a)) (Integer (digits_value b)))
                       (Integer (digits_value c)), 5))"
    by (simp add: same_level_Relation)
next
  assume "integer_literal a" "integer_literal b" "integer_literal c"
    and "Logical_check op1 \<and> Logical_check op2"
  then show "parse [a, op1, b, op2, c]
        = Some (Inr (Logical op2
                       (Logical op1 (Integer (digits_value a)) (Integer (digits_value b)))
                       (Integer (digits_value c)), 5))"
    by (simp add: same_level_Logical)
qed

theorem C7_left_associative_witness:
  "integer_literal ''10'' \<and> integer_literal ''3'' \<and> integer_literal ''2''
   \<and> Factor_check ''*'' \<and> Factor_check ''/''
   \<and> parse [''10'', ''*'', ''3'', ''/'', ''2'']
       = Some (Inr (Factor ''/'' (Factor ''*'' (Integer 10) (Integer 3)) (Integer 2), 5))
   \<and> Term_check ''-'' \<and> Term_check ''+''
   \<and> parse [''10'', ''-'', ''3'', ''+'', ''2'']
       = Some (Inr (Term ''+'' (Term ''-'' (Integer 10) (Integer 3)) (Integer 2), 5))
   \<and> Relation_check ''<'' \<and> Relation_check ''>=''
   \<and> parse [''10'', ''<'', ''3'', ''>='', ''2'']
       = Some (Inr (Relation ''>='' (Relation ''<'' (Integer 10) (Integer 3)) (Integer 2), 5))
   \<and> Logical_check ''and'' \<and> Logical_check ''OR''
   \<and> parse [''10'', ''and'', ''3'', ''OR'', ''2'']
       = Some (Inr (Logical ''OR'' (Logical ''and'' (Integer 10) (Integer 3)) (Integer 2), 5))
   \<and> parse [''10'', ''-'', ''3'', ''-'', ''2'']
       = Some (Inr (Term ''-'' (Term ''-'' (Integer 10) (Integer 3)) (Integer 2), 5))
   \<and> run ''10 - 3 - 2'' = Some (Inr 5)"
proof -
  have lits: "integer_literal ''10''" "integer_literal ''3''" "integer_literal ''2''"
    by code_simp+
  have ops: "Factor_check ''*''" "Factor_check ''/''" "Term_check ''-''" "Term_check ''+''"
    "Relation_check ''<''" "Relation_check ''>=''" "Logical_check ''and''" "Logical_check ''OR''"
    by code_simp+
  have vals: "digits_value ''10'' = 10" "digits_value ''3'' = 3" "digits_value ''2'' = 2"
    by code_simp+
  have res: "ll_result (10 - 3 - 2) = Inr 5"
    by code_simp
  from C7_left_associative [OF lits, of "''*''" "''/''"]
    C7_left_associative [OF lits, of "''-''" "''+''"]
    C7_left_associative [OF lits, of "''<''" "''>=''"]
    C7_left_associative [OF lits, of "''and''" "''OR''"]
    lits ops
  show ?thesis
    unfolding vals res by simp
qed

section \<open>An operand that is missing at the end\<close>

text \<open>
  C10. When \<open>parsePrimary\<close> is called with the cursor at \<open>tokens.end()\<close> it dereferences
  the cursor without a test, whatever the tokens are. This is what happens when a binary
  operator of any level is the last token and the tokens before it are used up, either
  as a complete expression or inside a parenthesis that is still open: the parse of the
  tokens with the operator appended ends in that dereference, not in the exception
  \<open>syntax error (primary)\<close>, and so does the run of every input with such tokens. The
  inputs \<open>1+\<close>, \<open>1+2+\<close>, \<open>(1)*\<close>, \<open>1 and 2 or\<close>, \<open>2*3<\<close>, \<open>(1+2)*(3-4)/\<close> and \<open>(1+\<close> are
  instances.
\<close>

theorem C10_operand_at_end:
  "parsePrimary P tokens (length tokens) = Some (Inl (Undefined dereference_end))
   \<and> ((Logical_check op \<or> Relation_check op \<or> Term_check op \<or> Factor_check op)
        \<and> (parse tokens = Some (Inr (e, length tokens))
             \<or> parse tokens = Some (Inl (Undefined increment_end)))
      \<longrightarrow> parse (tokens @ [op]) = Some (Inl (Undefined dereference_end)))
   \<and> ((Logical_check op \<or> Relation_check op \<or> Term_check op \<or> Factor_check op)
        \<and> (parse tokens = Some (Inr (e, length tokens))
             \<or> parse tokens = Some (Inl (Undefined increment_end)))
        \<and> tokenize s = Inr (tokens @ [op])
      \<longrightarrow> run s = Some (Inl (Undefined dereference_end)))
   \<and> (integer_literal a
        \<and> (Logical_check op \<or> Relation_check op \<or> Term_check op \<or> Factor_check op)
      \<longrightarrow> parse [a, op] = Some (Inl (Undefined dereference_end)))
   \<and> run ''1+'' = Some (Inl (Undefined dereference_end))
   \<and> run ''1+2+'' = Some (Inl (Undefined dereference_end))
   \<and> run ''(1)*'' = Some (Inl (Undefined dereference_end))
   \<and> run ''1 and 2 or'' = Some (Inl (Undefined dereference_end))
   \<and> run ''2*3<'' = Some (Inl (Undefined dereference_end))
   \<and> run ''(1+2)*(3-4)/'' = Some (Inl (Undefined dereference_end))
   \<and> run ''(1+'' = Some (Inl (Undefined dereference_end))"
proof (intro conjI impI)
  show "parsePrimary P tokens (length tokens) = Some (Inl (Undefined dereference_end))"
    by (rule parsePrimary_end)
  show "run ''1+'' = Some (Inl (Undefined dereference_end))"
    by code_simp
  show "run ''1+2+'' = Some (Inl (Undefined dereference_end))"
    by code_simp
  show "run ''(1)*'' = Some (Inl (Undefined dereference_end))"
    by code_simp
  show "run ''1 and 2 or'' = Some (Inl (Undefined dereference_end))"
    by code_simp
  show "run ''2*3<'' = Some (Inl (Undefined dereference_end))"
    by code_simp
  show "run ''(1+2)*(3-4)/'' = Some (Inl (Undefined dereference_end))"
    by code_simp
  show "run ''(1+'' = Some (Inl (Undefined dereference_end))"
    by code_simp
next
  assume "(Logical_check op \<or> Relation_check op \<or> Term_check op \<or> Factor_check op)
     \<and> (parse tokens = Some (Inr (e, length tokens))
          \<or> parse tokens = Some (Inl (Undefined increment_end)))"
  then show "parse (tokens @ [op]) = Some (Inl (Undefined dereference_end))"
    using parse_dangling_operator [of op tokens e] by blast
next
  assume h: "(Logical_check op \<or> Relation_check op \<or> Term_check op \<or> Factor_check op)
     \<and> (parse tokens = Some (Inr (e, length tokens))
          \<or> parse tokens = Some (Inl (Undefined increment_end)))
     \<and> tokenize s = Inr (tokens @ [op])"
  then have "parse (tokens @ [op]) = Some (Inl (Undefined dereference_end))"
    using parse_dangling_operator [of op tokens e] by blast
  with h show "run s = Some (Inl (Undefined dereference_end))"
    by (simp add: run_def)
next
  assume "integer_literal a
     \<and> (Logical_check op \<or> Relation_check op \<or> Term_check op \<or> Factor_check op)"
  then show "parse [a, op] = Some (Inl (Undefined dereference_end))"
    using parse_literal_operator [of a op] by blast
qed

theorem C10_operand_at_end_witness:
  "integer_literal ''1'' \<and> Term_check ''+''
   \<and> parse [''1'', ''+'', ''2''] = Some (Inr (Term ''+'' (Integer 1) (Integer 2), 3))
   \<and> tokenize ''1+2+'' = Inr [''1'', ''+'', ''2'', ''+'']
   \<and> parse [''('', ''1''] = Some (Inl (Undefined increment_end))
   \<and> parse [''1'', ''+'', ''2'', ''+''] = Some (Inl (Undefined dereference_end))
   \<and> parse [''('', ''1'', ''+''] = Some (Inl (Undefined dereference_end))
   \<and> parse [''1'', ''+''] = Some (Inl (Undefined dereference_end))
   \<and> run ''1+2+'' = Some (Inl (Undefined dereference_end))"
proof -
  have a: "integer_literal ''1''" by code_simp
  have b: "Term_check ''+''" by code_simp
  have c: "parse [''1'', ''+'', ''2''] = Some (Inr (Term ''+'' (Integer 1) (Integer 2), 3))"
    by code_simp
  have c': "parse [''1'', ''+'', ''2'']
      = Some (Inr (Term ''+'' (Integer 1) (Integer 2), length [''1'', ''+'', ''2'']))"
    using c by simp
  have d: "tokenize ''1+2+'' = Inr ([''1'', ''+'', ''2''] @ [''+''])" by code_simp
  have e: "parse [''('', ''1''] = Some (Inl (Undefined increment_end))" by code_simp
  from a b c c' d e
    C10_operand_at_end [where op = "''+''" and tokens = "[''1'', ''+'', ''2'']"
      and e = "Term ''+'' (Integer 1) (Integer 2)" and s = "''1+2+''" and a = "''1''"]
    C10_operand_at_end [where op = "''+''" and tokens = "[''('', ''1'']" and a = "''1''"]
  show ?thesis
    by simp
qed

section \<open>Lexical errors and skipped characters\<close>

text \<open>
  C6. \<open>tokenize\<close> fails exactly when the loop has produced no token, and then with the
  message \<open>wrong syntax\<close>; otherwise it returns the tokens. A character at which no
  alternative of the pattern matches is skipped, so the tokens, one after the other,
  are a subsequence of the input. The input \<open>1@@+2\<close> gives the tokens \<open>1\<close>, \<open>+\<close>, \<open>2\<close>
  and evaluates to 3.
\<close>

theorem C6_tokenize:
  "(tokenize s = Inl (Thrown ''wrong syntax'') \<longleftrightarrow> tokenize_loop s [] = [])
   \<and> (\<forall>e. tokenize s = Inl e \<longrightarrow> tokenize_loop s [] = [])
   \<and> (tokenize_loop s [] \<noteq> [] \<longrightarrow> tokenize s = Inr (tokenize_loop s []))
   \<and> (token_at (c # cs) = None \<longrightarrow> tokenize_loop (c # cs) acc = tokenize_loop cs acc)
   \<and> subseq (concat (tokenize_loop s [])) s
   \<and> tokenize ''1@@+2'' = Inr [''1'', ''+'', ''2'']
   \<and> run ''1@@+2'' = Some (Inr 3)"
proof (intro conjI)
  show "tokenize ''1@@+2'' = Inr [''1'', ''+'', ''2'']" by code_simp
  show "run ''1@@+2'' = Some (Inr 3)" by code_simp
  show "token_at (c # cs) = None \<longrightarrow> tokenize_loop (c # cs) acc = tokenize_loop cs acc"
    by (simp add: tokenize_loop.simps [of "c # cs"] tokenize_loop.simps [of cs])
  show "subseq (concat (tokenize_loop s [])) s"
    by (rule tokenize_loop_subseq)
  show "tokenize s = Inl (Thrown ''wrong syntax'') \<longleftrightarrow> tokenize_loop s [] = []"
    by (simp add: tokenize_def Let_def)
  show "\<forall>e. tokenize s = Inl e \<longrightarrow> tokenize_loop s [] = []"
    by (simp add: tokenize_def Let_def)
  show "tokenize_loop s [] \<noteq> [] \<longrightarrow> tokenize s = Inr (tokenize_loop s [])"
    by (simp add: tokenize_def Let_def)
qed

theorem C6_tokenize_witness:
  "token_at ''@@+2'' = None
   \<and> tokenize_loop ''@@+2'' [''1''] = tokenize_loop ''@+2'' [''1'']
   \<and> tokenize_loop ''1@@+2'' [] \<noteq> []
   \<and> tokenize ''1@@+2'' = Inr (tokenize_loop ''1@@+2'' [])"
proof -
  have a: "token_at ''@@+2'' = None" by code_simp
  have b: "tokenize_loop ''1@@+2'' [] \<noteq> []" by code_simp
  from a b C6_tokenize [of "''1@@+2''" "CHR ''@''" "''@+2''" "[''1'']"] show ?thesis
    by blast
qed

section \<open>Precedence\<close>

text \<open>
  C8. Multiplicative operators bind tighter than additive ones, and parentheses override
  that. For all integer literals \<open>a\<close>, \<open>b\<close>, \<open>c\<close>, every additive operator \<open>aop\<close> and every
  multiplicative operator \<open>mop\<close>: \<open>a aop b mop c\<close> is parsed as \<open>a aop (b mop c)\<close>,
  \<open>a mop b aop c\<close> as \<open>(a mop b) aop c\<close>, and \<open>(a aop b) mop c\<close> as the product or
  quotient whose left operand is the parenthesized sum or difference. The additive
  operators are \<open>+\<close> and \<open>-\<close>, the multiplicative ones \<open>*\<close> and \<open>/\<close>. The input \<open>2+3*4\<close>
  evaluates to 14 and \<open>(2+3)*4\<close> to 20.
\<close>

theorem C8_precedence:
  "integer_literal a \<Longrightarrow> integer_literal b \<Longrightarrow> integer_literal c \<Longrightarrow>
   Term_check aop \<Longrightarrow> Factor_check mop \<Longrightarrow>
   parse [a, aop, b, mop, c]
     = Some (Inr (Term aop (Integer (digits_value a))
                    (Factor mop (Integer (digits_value b)) (Integer (digits_value c))), 5))
   \<and> parse [a, mop, b, aop, c]
     = Some (Inr (Term aop (Factor mop (Integer (digits_value a)) (Integer (digits_value b)))
                    (Integer (digits_value c)), 5))
   \<and> parse [''('', a, aop, b, '')'', mop, c]
     = Some (Inr (Factor mop (Term aop (Integer (digits_value a)) (Integer (digits_value b)))
                    (Integer (digits_value c)), 7))
   \<and> Term_check op = (op = ''+'' \<or> op = ''-'')
   \<and> Factor_check op = (op = ''*'' \<or> op = ''/'')
   \<and> parse [''2'', ''+'', ''3'', ''*'', ''4'']
     = Some (Inr (Term ''+'' (Integer 2) (Factor ''*'' (Integer 3) (Integer 4)), 5))
   \<and> run ''2+3*4'' = Some (Inr 14)
   \<and> parse [''('', ''2'', ''+'', ''3'', '')'', ''*'', ''4'']
     = Some (Inr (Factor ''*'' (Term ''+'' (Integer 2) (Integer 3)) (Integer 4), 7))
   \<and> run ''(2+3)*4'' = Some (Inr 20)
   \<and> run ''2+8/4'' = Some (Inr 4)"
proof (intro conjI)
  assume h: "integer_literal a" "integer_literal b" "integer_literal c"
    "Term_check aop" "Factor_check mop"
  show "parse [a, aop, b, mop, c]
     = Some (Inr (Term aop (Integer (digits_value a))
                    (Factor mop (Integer (digits_value b)) (Integer (digits_value c))), 5))"
    by (rule precedence_plain(1) [OF h])
  show "parse [a, mop, b, aop, c]
     = Some (Inr (Term aop (Factor mop (Integer (digits_value a)) (Integer (digits_value b)))
                    (Integer (digits_value c)), 5))"
    by (rule precedence_plain(2) [OF h])
  show "parse [''('', a, aop, b, '')'', mop, c]
     = Some (Inr (Factor mop (Term aop (Integer (digits_value a)) (Integer (digits_value b)))
                    (Integer (digits_value c)), 7))"
    by (rule precedence_parenthesized [OF h])
  show "Term_check op = (op = ''+'' \<or> op = ''-'')"
    by (simp add: Term_check_def)
  show "Factor_check op = (op = ''*'' \<or> op = ''/'')"
    by (simp add: Factor_check_def)
  show "parse [''2'', ''+'', ''3'', ''*'', ''4'']
     = Some (Inr (Term ''+'' (Integer 2) (Factor ''*'' (Integer 3) (Integer 4)), 5))"
    by code_simp
  show "run ''2+3*4'' = Some (Inr 14)"
    by code_simp
  show "parse [''('', ''2'', ''+'', ''3'', '')'', ''*'', ''4'']
     = Some (Inr (Factor ''*'' (Term ''+'' (Integer 2) (Integer 3)) (Integer 4), 7))"
    by code_simp
  show "run ''(2+3)*4'' = Some (Inr 20)"
    by code_simp
  show "run ''2+8/4'' = Some (Inr 4)"
    by code_simp
qed

theorem C8_precedence_witness:
  "integer_literal ''2'' \<and> integer_literal ''8'' \<and> integer_literal ''4''
   \<and> Term_check ''-'' \<and> Factor_check ''/''
   \<and> parse [''2'', ''-'', ''8'', ''/'', ''4'']
     = Some (Inr (Term ''-'' (Integer 2) (Factor ''/'' (Integer 8) (Integer 4)), 5))
   \<and> parse [''2'', ''/'', ''8'', ''-'', ''4'']
     = Some (Inr (Term ''-'' (Factor ''/'' (Integer 2) (Integer 8)) (Integer 4), 5))
   \<and> parse [''('', ''2'', ''-'', ''8'', '')'', ''/'', ''4'']
     = Some (Inr (Factor ''/'' (Term ''-'' (Integer 2) (Integer 8)) (Integer 4), 7))"
proof -
  have lits: "integer_literal ''2''" "integer_literal ''8''" "integer_literal ''4''"
    by code_simp+
  have ops: "Term_check ''-''" "Factor_check ''/''"
    by code_simp+
  have vals: "digits_value ''2'' = 2" "digits_value ''8'' = 8" "digits_value ''4'' = 4"
    by code_simp+
  from C8_precedence [OF lits ops] lits ops show ?thesis
    unfolding vals by simp
qed

section \<open>Case of the logical keywords\<close>

text \<open>
  C9. The logical keywords are matched without regard to case, by the tokenizer, by
  \<open>Logical::check\<close> and by \<open>Logical::calculate\<close>. Two inputs that differ only in the case of
  letters give the same result; in particular, replacing a keyword \<open>k\<close> anywhere in an
  input by another casing \<open>k'\<close> of it does not change the result, and every run returns.
  The inputs \<open>1 AND 1\<close> and \<open>1 and 1\<close> both evaluate to 1.
\<close>

theorem C9_keywords_ignore_case:
  "(lower s = lower s' \<longrightarrow> run s = run s')
   \<and> (lower k = lower k' \<longrightarrow> run (u @ k @ v) = run (u @ k' @ v))
   \<and> tokenize (lower s)
       = (case tokenize s of Inl e \<Rightarrow> Inl e | Inr tokens \<Rightarrow> Inr (map lower tokens))
   \<and> Logical_check (lower op) = Logical_check op
   \<and> Logical_calculate (lower op) r1 r2 = Logical_calculate op r1 r2
   \<and> (\<exists>r. run s = Some r)
   \<and> run ''1 AND 1'' = Some (Inr 1)
   \<and> run ''1 and 1'' = Some (Inr 1)
   \<and> run ''1 aNd 0'' = Some (Inr 0)
   \<and> run ''0 Or 1'' = Some (Inr 1)
   \<and> run ''1 xOR 1'' = Some (Inr 0)"
proof (intro conjI impI)
  assume "lower s = lower s'"
  then have "run (lower s) = run (lower s')" by simp
  then show "run s = run s'" by (simp only: run_lower)
next
  assume "lower k = lower k'"
  then have "lower (u @ k @ v) = lower (u @ k' @ v)"
    by (simp add: lower_def)
  then have "run (lower (u @ k @ v)) = run (lower (u @ k' @ v))" by simp
  then show "run (u @ k @ v) = run (u @ k' @ v)" by (simp only: run_lower)
next
  show "tokenize (lower s)
       = (case tokenize s of Inl e \<Rightarrow> Inl e | Inr tokens \<Rightarrow> Inr (map lower tokens))"
    by (rule tokenize_lower)
  show "Logical_check (lower op) = Logical_check op"
    by (rule checks_lower)
  show "Logical_calculate (lower op) r1 r2 = Logical_calculate op r1 r2"
    by (simp only: Logical_calculate_lower)
  show "\<exists>r. run s = Some r"
    by (rule run_returns)
  show "run ''1 AND 1'' = Some (Inr 1)" by code_simp
  show "run ''1 and 1'' = Some (Inr 1)" by code_simp
  show "run ''1 aNd 0'' = Some (Inr 0)" by code_simp
  show "run ''0 Or 1'' = Some (Inr 1)" by code_simp
  show "run ''1 xOR 1'' = Some (Inr 0)" by code_simp
qed

theorem C9_keywords_ignore_case_witness:
  "lower ''1 AND 1'' = lower ''1 and 1'' \<and> run ''1 AND 1'' = run ''1 and 1''
   \<and> lower ''xOr'' = lower ''XOR'' \<and> run ''3 xOr 0'' = run ''3 XOR 0''"
proof -
  have a: "lower ''1 AND 1'' = lower ''1 and 1''" by code_simp
  have b: "lower ''xOr'' = lower ''XOR''" by code_simp
  from a b C9_keywords_ignore_case [where s = "''1 AND 1''" and s' = "''1 and 1''"
      and k = "''xOr''" and k' = "''XOR''" and u = "''3 ''" and v = "'' 0''"]
  show ?thesis by simp
qed

end
